theory Spec2Isabelle
  imports Complex_Main
begin

section \<open>Python values and string primitives\<close>

text \<open>
  Python strings are modelled as \<^typ>\<open>string\<close>; a character stands for a code point
  below 256. The primitives below follow Python's behaviour on that range.
\<close>

datatype pyval =
    PNone
  | PBool bool
  | PInt int
  | PStr string
  | PList "pyval list"
  | PDict "(string \<times> pyval) list"

type_synonym pydict = "(string \<times> pyval) list"

definition py_isspace :: "char \<Rightarrow> bool" where
  "py_isspace c = (let n = (of_char c :: nat) in
     (9 \<le> n \<and> n \<le> 13) \<or> (28 \<le> n \<and> n \<le> 32) \<or> n = 133 \<or> n = 160)"

definition lstrip :: "string \<Rightarrow> string" where
  "lstrip s = dropWhile py_isspace s"

definition rstrip :: "string \<Rightarrow> string" where
  "rstrip s = rev (dropWhile py_isspace (rev s))"

definition strip :: "string \<Rightarrow> string" where
  "strip s = rstrip (lstrip s)"

definition lower_char :: "char \<Rightarrow> char" where
  "lower_char c = (let n = (of_char c :: nat) in
     if (65 \<le> n \<and> n \<le> 90) \<or> (192 \<le> n \<and> n \<le> 214) \<or> (216 \<le> n \<and> n \<le> 222)
     then char_of (n + 32) else c)"

definition lower :: "string \<Rightarrow> string" where
  "lower s = map lower_char s"

text \<open>\<open>startswith p s\<close> is Python's \<open>s.startswith(p)\<close>; \<open>contains sub s\<close> is \<open>sub in s\<close>.\<close>

definition startswith :: "string \<Rightarrow> string \<Rightarrow> bool" where
  "startswith p s = (take (length p) s = p)"

fun contains :: "string \<Rightarrow> string \<Rightarrow> bool" where
  "contains sub [] = (sub = [])"
| "contains sub (c # cs) = (startswith sub (c # cs) \<or> contains sub cs)"

text \<open>Python truthiness of a value (\<open>bool(v)\<close>).\<close>

fun truthy :: "pyval \<Rightarrow> bool" where
  "truthy PNone = False"
| "truthy (PBool b) = b"
| "truthy (PInt i) = (i \<noteq> 0)"
| "truthy (PStr s) = (s \<noteq> [])"
| "truthy (PList xs) = (xs \<noteq> [])"
| "truthy (PDict kvs) = (kvs \<noteq> [])"

text \<open>Dictionaries are association lists in insertion order with distinct keys.\<close>

definition dict_get :: "pydict \<Rightarrow> string \<Rightarrow> pyval option" where
  "dict_get d k = map_of d k"

fun dict_set :: "pydict \<Rightarrow> string \<Rightarrow> pyval \<Rightarrow> pydict" where
  "dict_set [] k v = [(k, v)]"
| "dict_set ((k', v') # d) k v = (if k' = k then (k, v) # d else (k', v') # dict_set d k v)"

fun dict_update :: "pydict \<Rightarrow> pydict \<Rightarrow> pydict" where
  "dict_update d [] = d"
| "dict_update d ((k, v) # extra) = dict_update (dict_set d k v) extra"

section \<open>logger.py: the trace tree\<close>

definition REDACTION_HINTS :: "string list" where
  "REDACTION_HINTS = [''token'', ''authorization'', ''api_key'', ''secret'']"

definition mentions_secret :: "string \<Rightarrow> bool" where
  "mentions_secret s = list_ex (\<lambda>token. contains token (lower s)) REDACTION_HINTS"

fun safe_value :: "pyval \<Rightarrow> pyval" where
  "safe_value (PStr s) =
     (if mentions_secret s then PStr ''[REDACTED]''
      else if length s > 2000 then PStr (take 2000 s @ ''...[truncated]'')
      else PStr s)"
| "safe_value (PDict kvs) = PDict (map (\<lambda>(k, v). (k, safe_value v)) kvs)"
| "safe_value (PList xs) = PList (map safe_value xs)"
| "safe_value v = v"

record TraceEvent =
  ev_name :: string
  ev_status :: string
  ev_timestamp :: string
  ev_data :: pydict

definition TraceEvent_as_dict :: "TraceEvent \<Rightarrow> pyval" where
  "TraceEvent_as_dict e = PDict
     [(''name'', PStr (ev_name e)),
      (''status'', PStr (ev_status e)),
      (''timestamp'', PStr (ev_timestamp e)),
      (''data'', safe_value (PDict (ev_data e)))]"

text \<open>
  A span owns its events and children. The wall clock (\<open>_utc_now_iso\<close>) and the
  monotonic clock (\<open>time.monotonic\<close>) are read by the caller and passed in; the monotonic
  reading is an idealised real number.
\<close>

datatype TraceSpan = TraceSpan
  (sp_name: string)
  (sp_status: string)
  (sp_started_at: string)
  (sp_started_at_monotonic: real)
  (sp_finished_at: "string option")
  (sp_duration_ms: "int option")
  (sp_data: pydict)
  (sp_events: "TraceEvent list")
  (sp_children: "TraceSpan list")

text \<open>
  Python's \<open>int(x)\<close> on a float truncates towards zero. Clock readings are binary64
  numbers, so each subtraction and multiplication rounds its exact result to binary64; that
  rounding is the parameter \<open>fl\<close> of \<open>finish\<close>.
\<close>

definition py_int :: "real \<Rightarrow> int" where
  "py_int x = (if x \<ge> 0 then \<lfloor>x\<rfloor> else \<lceil>x\<rceil>)"

definition new_span :: "string \<Rightarrow> pydict \<Rightarrow> string \<Rightarrow> real \<Rightarrow> TraceSpan" where
  "new_span name dat now_iso now_mono =
     TraceSpan name ''in_progress'' now_iso now_mono None None dat [] []"

definition event :: "string \<Rightarrow> string \<Rightarrow> pydict \<Rightarrow> string \<Rightarrow> TraceSpan \<Rightarrow> TraceSpan" where
  "event name status dat now_iso sp =
     (case sp of TraceSpan n s st sm f d dt evs ch \<Rightarrow>
        TraceSpan n s st sm f d dt
          (evs @ [\<lparr>ev_name = name, ev_status = status, ev_timestamp = now_iso, ev_data = dat\<rparr>]) ch)"

definition finish ::
  "(real \<Rightarrow> real) \<Rightarrow> string \<Rightarrow> pydict \<Rightarrow> string \<Rightarrow> real \<Rightarrow> TraceSpan \<Rightarrow> TraceSpan" where
  "finish fl status extra now_iso now_mono sp =
     (case sp of TraceSpan n s st sm f d dt evs ch \<Rightarrow>
        if f \<noteq> None then sp
        else TraceSpan n status st sm (Some now_iso)
               (Some (py_int (fl (fl (now_mono - sm) * 1000))))
               (if extra \<noteq> [] then dict_update dt extra else dt) evs ch)"

fun TraceSpan_as_dict :: "TraceSpan \<Rightarrow> pyval" where
  "TraceSpan_as_dict (TraceSpan n s st sm f d dt evs ch) = PDict
     [(''name'', PStr n),
      (''status'', PStr s),
      (''started_at'', PStr st),
      (''finished_at'', (case f of None \<Rightarrow> PNone | Some t \<Rightarrow> PStr t)),
      (''duration_ms'', (case d of None \<Rightarrow> PNone | Some ms \<Rightarrow> PInt ms)),
      (''data'', safe_value (PDict dt)),
      (''events'', PList (map TraceEvent_as_dict evs)),
      (''children'', PList (map TraceSpan_as_dict ch))]"

record RequestTrace =
  request_id :: string
  metadata :: pydict
  rt_started_at :: string
  root :: TraceSpan

definition RequestTrace_as_dict :: "RequestTrace \<Rightarrow> pyval" where
  "RequestTrace_as_dict t = PDict
     [(''request_id'', PStr (request_id t)),
      (''started_at'', PStr (rt_started_at t)),
      (''metadata'', safe_value (PDict (metadata t))),
      (''trace'', TraceSpan_as_dict (root t))]"

text \<open>Positions inside a serialised document: a dictionary key or a list index per step.\<close>

datatype step = Key string | Idx nat

fun value_at :: "pyval \<Rightarrow> step list \<Rightarrow> pyval option" where
  "value_at v [] = Some v"
| "value_at (PDict kvs) (Key k # p) = (case map_of kvs k of None \<Rightarrow> None | Some v \<Rightarrow> value_at v p)"
| "value_at (PList xs) (Idx i # p) = (if i < length xs then value_at (xs ! i) p else None)"
| "value_at v (s # p) = None"

text \<open>
  The data mappings of a request trace: its metadata, the data of the span reached from the
  root by a list of child indices, and the data of the \<open>j\<close>-th event of such a span.
  \<open>doc_path\<close> is where \<open>RequestTrace.as_dict\<close> puts that mapping.
\<close>

datatype data_pos = Metadata | SpanData "nat list" | EventData "nat list" nat

fun span_at :: "TraceSpan \<Rightarrow> nat list \<Rightarrow> TraceSpan option" where
  "span_at sp [] = Some sp"
| "span_at sp (i # is) =
     (if i < length (sp_children sp) then span_at (sp_children sp ! i) is else None)"

fun span_path :: "nat list \<Rightarrow> step list" where
  "span_path [] = []"
| "span_path (i # is) = Key ''children'' # Idx i # span_path is"

fun data_at :: "RequestTrace \<Rightarrow> data_pos \<Rightarrow> pydict option" where
  "data_at t Metadata = Some (metadata t)"
| "data_at t (SpanData is) = map_option sp_data (span_at (root t) is)"
| "data_at t (EventData is j) =
     (case span_at (root t) is of
        None \<Rightarrow> None
      | Some sp \<Rightarrow> if j < length (sp_events sp) then Some (ev_data (sp_events sp ! j)) else None)"

fun doc_path :: "data_pos \<Rightarrow> step list" where
  "doc_path Metadata = [Key ''metadata'']"
| "doc_path (SpanData is) = Key ''trace'' # span_path is @ [Key ''data'']"
| "doc_path (EventData is j) =
     Key ''trace'' # span_path is @ [Key ''events'', Idx j, Key ''data'']"

section \<open>json\_utils.py: the structured extractor\<close>

abbreviation DQUOTE :: char where "DQUOTE \<equiv> CHR 0x22"
abbreviation BACKSLASH :: char where "BACKSLASH \<equiv> CHR 0x5C"
abbreviation LBRACE :: char where "LBRACE \<equiv> CHR ''{''"
abbreviation RBRACE :: char where "RBRACE \<equiv> CHR ''}''"
abbreviation LF :: char where "LF \<equiv> CHR 0x0A"
abbreviation CR :: char where "CR \<equiv> CHR 0x0D"

text \<open>
  Exceptions are values. Each constructor is one raise site (or one class of library
  exception); the Python class is given with it.
\<close>

datatype error =
    NoObjectFound            \<comment> \<open>ValueError: No JSON object found in text\<close>
  | UnterminatedObject       \<comment> \<open>ValueError: Unterminated JSON object in text\<close>
  | NotAnObject              \<comment> \<open>ValueError: Top-level JSON payload must be an object\<close>
  | JSONDecodeError          \<comment> \<open>raised by \<open>json.loads\<close>; a ValueError\<close>
  | NotJSON string           \<comment> \<open>RuntimeError: Gemini response is not JSON\<close>
  | InvalidToolCall pydict   \<comment> \<open>RuntimeError: Invalid tool\_call payload\<close>
  | InvalidFinal pydict      \<comment> \<open>RuntimeError: Invalid final payload\<close>
  | UnsupportedAction pydict \<comment> \<open>RuntimeError: Unsupported action type from Gemini\<close>
  | UnknownTool pyval        \<comment> \<open>RuntimeError: Unknown tool requested by Gemini\<close>
  | ProviderError int string \<comment> \<open>RuntimeError: Gemini API error (code): detail\<close>
  | TimedOut nat nat         \<comment> \<open>RuntimeError: Gemini request timed out (attempt a/b)\<close>
  | NetworkError string      \<comment> \<open>RuntimeError: Gemini network error: reason\<close>
  | MissingText              \<comment> \<open>RuntimeError: Gemini response missing text content\<close>
  | Unhandled string         \<comment> \<open>an exception of the named class, raised by a library call and not caught\<close>
  | NoPushAccess             \<comment> \<open>RuntimeError: GITHUB\_TOKEN has no push access to this repo\<close>
  | GithubError string       \<comment> \<open>RuntimeError raised by a GitHub request\<close>
  | KeyError string
  | TypeError
  | AttributeError
  | ValidationError          \<comment> \<open>pydantic.ValidationError\<close>

text \<open>\<open>str.splitlines\<close>: the line boundaries among the code points below 256.\<close>

definition is_linebreak :: "char \<Rightarrow> bool" where
  "is_linebreak c = (let n = (of_char c :: nat) in
     (10 \<le> n \<and> n \<le> 13) \<or> (28 \<le> n \<and> n \<le> 30) \<or> n = 133)"

fun splitlines_from :: "string \<Rightarrow> string \<Rightarrow> string list" where
  "splitlines_from cur [] = (if cur = [] then [] else [rev cur])"
| "splitlines_from cur [c] =
     (if is_linebreak c then [rev cur] else [rev (c # cur)])"
| "splitlines_from cur (c # d # cs) =
     (if c = CR \<and> d = LF then rev cur # splitlines_from [] cs
      else if is_linebreak c then rev cur # splitlines_from [] (d # cs)
      else splitlines_from (c # cur) (d # cs))"

definition splitlines :: "string \<Rightarrow> string list" where
  "splitlines s = splitlines_from [] s"

fun join :: "string \<Rightarrow> string list \<Rightarrow> string" where
  "join sep [] = []"
| "join sep [x] = x"
| "join sep (x # y # ys) = x @ sep @ join sep (y # ys)"

definition strip_code_fences :: "string \<Rightarrow> string" where
  "strip_code_fences text =
     (let stripped = strip text in
      if \<not> startswith ''```'' stripped then stripped
      else
        let lines0 = splitlines stripped;
            lines1 = (if lines0 \<noteq> [] \<and> startswith ''```'' (hd lines0) then tl lines0 else lines0);
            lines2 = (if lines1 \<noteq> [] \<and> strip (last lines1) = ''```'' then butlast lines1 else lines1)
        in strip (join [LF] lines2))"

text \<open>\<open>str.find\<close> for a single character: the first index, \<open>None\<close> for Python's \<open>-1\<close>.\<close>

fun str_find :: "char \<Rightarrow> string \<Rightarrow> nat option" where
  "str_find c [] = None"
| "str_find c (x # xs) = (if x = c then Some 0 else map_option Suc (str_find c xs))"

text \<open>
  The scanning loop of \<open>extract_first_json_object\<close>, over the characters from \<open>start\<close>
  on: the loop variables \<open>depth\<close>, \<open>in_string\<close>, \<open>escaped\<close> and the running \<open>index\<close>.
  The result is \<open>end\<close>, \<open>None\<close> for \<open>-1\<close>.
\<close>

fun scan :: "int \<Rightarrow> bool \<Rightarrow> bool \<Rightarrow> nat \<Rightarrow> string \<Rightarrow> nat option" where
  "scan depth in_string escaped index [] = None"
| "scan depth in_string escaped index (char # rest) =
     (if in_string then
        (if escaped then scan depth in_string False (Suc index) rest
         else if char = BACKSLASH then scan depth in_string True (Suc index) rest
         else if char = DQUOTE then scan depth False escaped (Suc index) rest
         else scan depth in_string escaped (Suc index) rest)
      else if char = DQUOTE then scan depth True escaped (Suc index) rest
      else if char = LBRACE then scan (depth + 1) in_string escaped (Suc index) rest
      else if char = RBRACE then
        (if depth - 1 = 0 then Some index
         else scan (depth - 1) in_string escaped (Suc index) rest)
      else scan depth in_string escaped (Suc index) rest)"

text \<open>\<open>json.loads\<close> belongs to the Python library; it is a parameter, \<open>None\<close> when it raises.\<close>

definition extract_first_json_object ::
  "(string \<Rightarrow> pyval option) \<Rightarrow> string \<Rightarrow> error + (pydict \<times> string)" where
  "extract_first_json_object loads text =
     (let candidate = strip_code_fences text in
      case str_find LBRACE candidate of
        None \<Rightarrow> Inl NoObjectFound
      | Some start \<Rightarrow>
          (case scan 0 False False start (drop start candidate) of
             None \<Rightarrow> Inl UnterminatedObject
           | Some end \<Rightarrow>
               let raw = take (end + 1 - start) (drop start candidate);
                   trailing = strip (drop (end + 1) candidate)
               in (case loads raw of
                     None \<Rightarrow> Inl JSONDecodeError
                   | Some (PDict payload) \<Rightarrow> Inr (payload, trailing)
                   | Some other \<Rightarrow> Inl NotAnObject)))"

subsection \<open>JSON serialisation\<close>

text \<open>
  What the claims call the serialisation of an object: the text \<open>json.dumps\<close> produces
  with its default settings. Numbers are integers.
\<close>

definition hex_digit :: "nat \<Rightarrow> char" where
  "hex_digit n = (if n < 10 then char_of (48 + n) else char_of (87 + n))"

definition escape_char :: "char \<Rightarrow> string" where
  "escape_char c = (let n = (of_char c :: nat) in
     if c = DQUOTE then [BACKSLASH, DQUOTE]
     else if c = BACKSLASH then [BACKSLASH, BACKSLASH]
     else if n = 10 then [BACKSLASH, CHR ''n'']
     else if n = 13 then [BACKSLASH, CHR ''r'']
     else if n = 9 then [BACKSLASH, CHR ''t'']
     else if n = 8 then [BACKSLASH, CHR ''b'']
     else if n = 12 then [BACKSLASH, CHR ''f'']
     else if n < 32 \<or> 126 < n then
       [BACKSLASH, CHR ''u'', CHR ''0'', CHR ''0'', hex_digit (n div 16), hex_digit (n mod 16)]
     else [c])"

definition dumps_str :: "string \<Rightarrow> string" where
  "dumps_str s = DQUOTE # concat (map escape_char s) @ [DQUOTE]"

function digits :: "nat \<Rightarrow> string" where
  "digits n = (if n < 10 then [char_of (48 + n)] else digits (n div 10) @ [char_of (48 + n mod 10)])"
  by pat_completeness auto
termination
  by (relation "measure id") auto

declare digits.simps [simp del]

definition dumps_int :: "int \<Rightarrow> string" where
  "dumps_int i = (if i < 0 then CHR ''-'' # digits (nat (- i)) else digits (nat i))"

fun dumps :: "pyval \<Rightarrow> string" where
  "dumps PNone = ''null''"
| "dumps (PBool b) = (if b then ''true'' else ''false'')"
| "dumps (PInt i) = dumps_int i"
| "dumps (PStr s) = dumps_str s"
| "dumps (PList xs) = ''['' @ join '', '' (map dumps xs) @ '']''"
| "dumps (PDict kvs) =
     ''{'' @ join '', '' (map (\<lambda>(k, v). dumps_str k @ '': '' @ dumps v) kvs) @ ''}''"

text \<open>The first \<open>{\<close> outside a quoted string, scanning from the start of the text.\<close>

fun first_unquoted_brace :: "bool \<Rightarrow> bool \<Rightarrow> nat \<Rightarrow> string \<Rightarrow> nat option" where
  "first_unquoted_brace in_string escaped index [] = None"
| "first_unquoted_brace in_string escaped index (char # rest) =
     (if in_string then
        (if escaped then first_unquoted_brace True False (Suc index) rest
         else if char = BACKSLASH then first_unquoted_brace True True (Suc index) rest
         else if char = DQUOTE then first_unquoted_brace False False (Suc index) rest
         else first_unquoted_brace True False (Suc index) rest)
      else if char = DQUOTE then first_unquoted_brace True False (Suc index) rest
      else if char = LBRACE then Some index
      else first_unquoted_brace False False (Suc index) rest)"

text \<open>
  A text is transparent to the scanner at a depth when, met outside a string, it is
  consumed whole and leaves depth and flags as they were.
\<close>

definition transparent :: "int \<Rightarrow> string \<Rightarrow> bool" where
  "transparent d t =
     (\<forall>i rest. scan d False False i (t @ rest) = scan d False False (i + length t) rest)"

section \<open>agent/modes.py: mode detection\<close>

record ModeDecision =
  md_mode :: string
  md_reason :: string

definition PLAN_HINTS :: "string list" where
  "PLAN_HINTS =
     [''plan mode'', ''make a plan'', ''create a plan'', ''before you code'',
      ''implementation plan'', ''review before coding'']"

definition CODE_HINTS :: "string list" where
  "CODE_HINTS =
     [''feature'', ''implement'', ''ship'', ''build'', ''code'', ''refactor'', ''bug'',
      ''fix'', ''repository'', ''repo'', ''pull request'', ''pr'']"

text \<open>Each \<open>for hint in ...: if hint in normalized: return\<close> loop is a search for the first match.\<close>

definition detect_mode :: "string \<Rightarrow> ModeDecision" where
  "detect_mode prompt =
     (let normalized = lower (strip prompt) in
      case find (\<lambda>hint. contains hint normalized) PLAN_HINTS of
        Some hint \<Rightarrow> \<lparr>md_mode = ''plan'', md_reason = ''matched_hint:'' @ hint\<rparr>
      | None \<Rightarrow>
          (case find (\<lambda>hint. contains hint normalized) CODE_HINTS of
             Some hint \<Rightarrow> \<lparr>md_mode = ''plan'', md_reason = ''matched_code_hint:'' @ hint\<rparr>
           | None \<Rightarrow> \<lparr>md_mode = ''chat'', md_reason = ''default''\<rparr>))"

text \<open>
  \<open>PlanSchema.model_json_schema()\<close> is produced by pydantic; its printed form is the
  parameter \<open>schema\<close>.
\<close>

definition build_plan_prompt :: "string \<Rightarrow> string \<Rightarrow> string" where
  "build_plan_prompt schema user_prompt =
     ''You are in plan mode. Analyze the request and return only JSON matching this schema. ''
     @ ''Do not include markdown fences or commentary.'' @ [LF, LF]
     @ ''Schema:'' @ [LF] @ schema @ [LF, LF]
     @ ''User request:'' @ [LF] @ user_prompt"

section \<open>agent/tools.py and agent/provider.py: the data the provider works on\<close>

text \<open>Python operations on a value whose type is only known at run time.\<close>

definition py_get :: "pyval \<Rightarrow> string \<Rightarrow> pyval \<Rightarrow> error + pyval" where
  \<comment> \<open>\<open>v.get(k, dflt)\<close>: only a dict has \<open>get\<close>\<close>
  "py_get v k dflt =
     (case v of
        PDict d \<Rightarrow> Inr (case map_of d k of None \<Rightarrow> dflt | Some x \<Rightarrow> x)
      | _ \<Rightarrow> Inl AttributeError)"

definition py_index :: "pyval \<Rightarrow> string \<Rightarrow> error + pyval" where
  \<comment> \<open>\<open>v[k]\<close> with a string key\<close>
  "py_index v k =
     (case v of
        PDict d \<Rightarrow> (case map_of d k of None \<Rightarrow> Inl (KeyError k) | Some x \<Rightarrow> Inr x)
      | _ \<Rightarrow> Inl TypeError)"

definition py_iter :: "pyval \<Rightarrow> error + pyval list" where
  \<comment> \<open>the items a \<open>for\<close> loop over \<open>v\<close> visits\<close>
  "py_iter v =
     (case v of
        PList xs \<Rightarrow> Inr xs
      | PDict d \<Rightarrow> Inr (map (\<lambda>(k, x). PStr k) d)
      | PStr s \<Rightarrow> Inr (map (\<lambda>c. PStr [c]) s)
      | _ \<Rightarrow> Inl TypeError)"

definition removesuffix :: "string \<Rightarrow> string \<Rightarrow> string" where
  "removesuffix suf s =
     (if suf \<noteq> [] \<and> length suf \<le> length s \<and> drop (length s - length suf) s = suf
      then take (length s - length suf) s else s)"

definition strip_chars :: "string \<Rightarrow> string \<Rightarrow> string" where
  "strip_chars chars s =
     rev (dropWhile (\<lambda>c. c \<in> set chars) (rev (dropWhile (\<lambda>c. c \<in> set chars) s)))"

text \<open>\<open>split_once sep s\<close>: the text before and after the first \<open>sep\<close>, if there is one.\<close>

fun split_once :: "string \<Rightarrow> string \<Rightarrow> (string \<times> string) option" where
  "split_once sep [] = (if sep = [] then Some ([], []) else None)"
| "split_once sep (c # cs) =
     (if startswith sep (c # cs) then Some ([], drop (length sep) (c # cs))
      else map_option (\<lambda>(a, b). (c # a, b)) (split_once sep cs))"

definition before_first :: "string \<Rightarrow> string \<Rightarrow> string" where
  \<comment> \<open>\<open>s.split(sep, 1)[0]\<close>\<close>
  "before_first sep s = (case split_once sep s of None \<Rightarrow> s | Some (a, b) \<Rightarrow> a)"

fun split_char :: "char \<Rightarrow> string \<Rightarrow> string \<Rightarrow> string list" where
  \<comment> \<open>\<open>s.split(c)\<close>, with the current piece accumulated in reverse\<close>
  "split_char c cur [] = [rev cur]"
| "split_char c cur (x # xs) =
     (if x = c then rev cur # split_char c [] xs else split_char c (x # cur) xs)"

record RepoAccess =
  owner :: string
  repo :: string
  branch :: string

definition sanitize_slug :: "string \<Rightarrow> string \<Rightarrow> string" where
  "sanitize_slug field_name value =
     (let cleaned0 = strip (strip_chars ''<>'' (strip value));
          cleaned1 = before_first ''|'' cleaned0;
          cleaned2 =
            (case split_once ''github.com/'' cleaned1 of
               None \<Rightarrow> cleaned1
             | Some (head, tail0) \<Rightarrow>
                 let tail1 = strip_chars ''/'' (before_first ''#'' (before_first ''?'' tail0));
                     parts = filter (\<lambda>part. part \<noteq> []) (split_char CHR ''/'' [] tail1)
                 in if parts = [] then cleaned1
                    else if field_name = ''owner'' then hd parts
                    else if length parts > 1 then parts ! 1
                    else hd parts)
      in removesuffix ''.git'' cleaned2)"

text \<open>Construction of a \<open>RepoAccess\<close>: the validator runs first, then the length constraints.\<close>

definition RepoAccess_new :: "string \<Rightarrow> string \<Rightarrow> string \<Rightarrow> error + RepoAccess" where
  "RepoAccess_new own rep br =
     (let own' = sanitize_slug ''owner'' own; rep' = sanitize_slug ''repo'' rep in
      if own' = [] \<or> rep' = [] \<or> br = [] then Inl ValidationError
      else Inr \<lparr>owner = own', repo = rep', branch = br\<rparr>)"

record PullRequestInput =
  pr_title :: string
  pr_body :: string
  pr_head_branch :: string
  pr_base_branch :: string

record WriteFileInput =
  wf_path :: string
  wf_content :: string
  wf_commit_message :: string
  wf_branch :: "string option"

text \<open>
  \<open>model_validate\<close> on the two input models, from their field declarations: string
  fields accept strings only, \<open>extra = forbid\<close> rejects unknown keys.
\<close>

definition str_field :: "pydict \<Rightarrow> string \<Rightarrow> nat \<Rightarrow> string option \<Rightarrow> error + string" where
  \<comment> \<open>a \<open>str\<close> field with a minimum length and, possibly, a default\<close>
  "str_field d k min_len dflt =
     (case map_of d k of
        None \<Rightarrow> (case dflt of None \<Rightarrow> Inl ValidationError | Some s \<Rightarrow> Inr s)
      | Some (PStr s) \<Rightarrow> if length s < min_len then Inl ValidationError else Inr s
      | Some other \<Rightarrow> Inl ValidationError)"

definition WriteFileInput_model_validate :: "pyval \<Rightarrow> error + WriteFileInput" where
  "WriteFileInput_model_validate arguments =
     (case arguments of
        PDict d \<Rightarrow>
          if \<not> list_all (\<lambda>(k, v). k \<in> set [''path'', ''content'', ''commit_message'', ''branch'']) d
          then Inl ValidationError
          else
            (case (str_field d ''path'' 1 None, str_field d ''content'' 0 None,
                   str_field d ''commit_message'' 1 None) of
               (Inr p, Inr c, Inr m) \<Rightarrow>
                 (case map_of d ''branch'' of
                    None \<Rightarrow> Inr \<lparr>wf_path = p, wf_content = c, wf_commit_message = m, wf_branch = None\<rparr>
                  | Some PNone \<Rightarrow>
                      Inr \<lparr>wf_path = p, wf_content = c, wf_commit_message = m, wf_branch = None\<rparr>
                  | Some (PStr b) \<Rightarrow>
                      Inr \<lparr>wf_path = p, wf_content = c, wf_commit_message = m, wf_branch = Some b\<rparr>
                  | Some other \<Rightarrow> Inl ValidationError)
             | _ \<Rightarrow> Inl ValidationError)
      | _ \<Rightarrow> Inl ValidationError)"

definition PullRequestInput_model_validate :: "pyval \<Rightarrow> error + PullRequestInput" where
  "PullRequestInput_model_validate arguments =
     (case arguments of
        PDict d \<Rightarrow>
          if \<not> list_all (\<lambda>(k, v). k \<in> set [''title'', ''body'', ''head_branch'', ''base_branch'']) d
          then Inl ValidationError
          else
            (case (str_field d ''title'' 1 None, str_field d ''body'' 0 (Some ''''),
                   str_field d ''head_branch'' 1 None, str_field d ''base_branch'' 1 (Some ''main'')) of
               (Inr t, Inr b, Inr h, Inr base) \<Rightarrow>
                 Inr \<lparr>pr_title = t, pr_body = b, pr_head_branch = h, pr_base_branch = base\<rparr>
             | _ \<Rightarrow> Inl ValidationError)
      | _ \<Rightarrow> Inl ValidationError)"

text \<open>
  \<open>GithubTools\<close> is handed to the provider at construction. Its repository operations
  are network calls; the provider sees them through this interface, an error or a result.
\<close>

record github_tools =
  get_default_branch :: "RepoAccess \<Rightarrow> error + pyval"
  create_branch :: "RepoAccess \<Rightarrow> pyval \<Rightarrow> pyval \<Rightarrow> error + pyval"
  list_files :: "RepoAccess \<Rightarrow> pyval \<Rightarrow> error + pyval list"
  read_file :: "RepoAccess \<Rightarrow> pyval \<Rightarrow> pyval \<Rightarrow> error + pyval"
  write_file :: "RepoAccess \<Rightarrow> WriteFileInput \<Rightarrow> error + pyval"
  create_pull_request :: "RepoAccess \<Rightarrow> PullRequestInput \<Rightarrow> error + pyval"

text \<open>
  \<open>ensure_repo_write_access\<close>, on what \<open>_request("GET", "/repos/owner/repo")\<close> gave: an
  error it raised, or the decoded response body.
\<close>

definition ensure_repo_write_access :: "error + pyval \<Rightarrow> error + unit" where
  "ensure_repo_write_access response =
     (case response of
        Inl e \<Rightarrow> Inl e
      | Inr repo_body \<Rightarrow>
          (case py_get repo_body ''permissions'' PNone of
             Inl e \<Rightarrow> Inl e
           | Inr permissions \<Rightarrow>
               (case permissions of
                  PDict perms \<Rightarrow>
                    if \<not> truthy (case map_of perms ''push'' of None \<Rightarrow> PBool False | Some v \<Rightarrow> v)
                    then Inl NoPushAccess else Inr ()
                | _ \<Rightarrow> Inr ())))"

record AgentRequest =
  req_prompt :: string
  req_mode :: string
  req_context :: pydict

record AgentResponse =
  resp_provider :: string
  resp_text :: string

text \<open>\<open>AgentResponse(provider, text)\<close>: the text field accepts a string only.\<close>

definition AgentResponse_new :: "string \<Rightarrow> pyval \<Rightarrow> error + AgentResponse" where
  "AgentResponse_new p t =
     (case t of PStr s \<Rightarrow> Inr \<lparr>resp_provider = p, resp_text = s\<rparr> | _ \<Rightarrow> Inl ValidationError)"

section \<open>agent/gemini.py: the provider\<close>

subsection \<open>The generation call and its retries\<close>

text \<open>
  What one attempt (\<open>urlopen\<close>, \<open>read\<close>, \<open>decode\<close>) does: a response body, an
  \<open>HTTPError\<close> with its status code and body, a timeout, a \<open>URLError\<close> with its reason,
  or an exception of any other class. \<open>urlopen\<close> wraps in \<open>URLError\<close> only the errors of
  sending the request; a connection closed or reset while the reply is awaited or read
  (\<open>RemoteDisconnected\<close>, \<open>ConnectionResetError\<close>) and an undecodable body
  (\<open>UnicodeDecodeError\<close>) arrive as they are.
\<close>

datatype http_outcome =
    HttpOk string
  | HTTPError int string
  | Timeout
  | URLError string
  | OtherException string

definition max_retries :: nat where
  "max_retries = 2"

text \<open>
  The loop \<open>for attempt in range(self.max_retries + 1)\<close> with \<open>remaining\<close> attempts left.
  The \<open>try\<close> has handlers for \<open>HTTPError\<close>, for \<open>TimeoutError\<close> and for \<open>URLError\<close>;
  an exception of another class leaves the loop and the function as it is. The second
  component of the result counts the attempts made. The pause between attempts
  (\<open>time.sleep\<close>) changes no value and is left out.
\<close>

fun http_loop ::
  "(nat \<Rightarrow> http_outcome) \<Rightarrow> nat \<Rightarrow> nat \<Rightarrow> string \<Rightarrow> error option \<Rightarrow> (error + string) \<times> nat" where
  "http_loop attempt_outcome 0 attempt raw last_error =
     ((case last_error of Some e \<Rightarrow> Inl e | None \<Rightarrow> Inr raw), attempt)"
| "http_loop attempt_outcome (Suc remaining) attempt raw last_error =
     (case attempt_outcome attempt of
        HttpOk body \<Rightarrow> (Inr body, Suc attempt)
      | HTTPError code detail \<Rightarrow> (Inl (ProviderError code detail), Suc attempt)
      | Timeout \<Rightarrow>
          http_loop attempt_outcome remaining (Suc attempt) raw
            (Some (TimedOut (attempt + 1) (max_retries + 1)))
      | URLError reason \<Rightarrow>
          http_loop attempt_outcome remaining (Suc attempt) raw (Some (NetworkError reason))
      | OtherException cls \<Rightarrow> (Inl (Unhandled cls), Suc attempt))"

fun collect_part_texts :: "pyval list \<Rightarrow> error + pyval list" where
  "collect_part_texts [] = Inr []"
| "collect_part_texts (part # parts) =
     (case py_get part ''text'' PNone of
        Inl e \<Rightarrow> Inl e
      | Inr text \<Rightarrow>
          (case collect_part_texts parts of
             Inl e \<Rightarrow> Inl e
           | Inr others \<Rightarrow> Inr (if truthy text then text # others else others)))"

fun collect_candidate_texts :: "pyval list \<Rightarrow> error + pyval list" where
  "collect_candidate_texts [] = Inr []"
| "collect_candidate_texts (candidate # candidates) =
     (case py_get candidate ''content'' (PDict []) of
        Inl e \<Rightarrow> Inl e
      | Inr content \<Rightarrow>
          (case py_get content ''parts'' (PList []) of
             Inl e \<Rightarrow> Inl e
           | Inr parts \<Rightarrow>
               (case py_iter parts of
                  Inl e \<Rightarrow> Inl e
                | Inr items \<Rightarrow>
                    (case collect_part_texts items of
                       Inl e \<Rightarrow> Inl e
                     | Inr texts \<Rightarrow>
                         (case collect_candidate_texts candidates of
                            Inl e \<Rightarrow> Inl e
                          | Inr others \<Rightarrow> Inr (texts @ others))))))"

fun str_items :: "pyval list \<Rightarrow> error + string list" where
  \<comment> \<open>\<open>str.join\<close> accepts strings only\<close>
  "str_items [] = Inr []"
| "str_items (PStr s # vs) = (case str_items vs of Inl e \<Rightarrow> Inl e | Inr ss \<Rightarrow> Inr (s # ss))"
| "str_items (v # vs) = Inl TypeError"

definition read_generation_body :: "(string \<Rightarrow> pyval option) \<Rightarrow> string \<Rightarrow> error + string" where
  "read_generation_body loads raw =
     (case loads raw of
        None \<Rightarrow> Inl JSONDecodeError
      | Some body \<Rightarrow>
          (case py_get body ''candidates'' (PList []) of
             Inl e \<Rightarrow> Inl e
           | Inr candidates \<Rightarrow>
               (case py_iter candidates of
                  Inl e \<Rightarrow> Inl e
                | Inr items \<Rightarrow>
                    (case collect_candidate_texts items of
                       Inl e \<Rightarrow> Inl e
                     | Inr texts \<Rightarrow>
                         (case str_items texts of
                            Inl e \<Rightarrow> Inl e
                          | Inr strs \<Rightarrow>
                              let combined = strip (join [LF] strs) in
                              if combined = [] then Inl MissingText else Inr combined)))))"

definition generate_text ::
  "(string \<Rightarrow> pyval option) \<Rightarrow> (nat \<Rightarrow> http_outcome) \<Rightarrow> (error + string) \<times> nat" where
  "generate_text loads attempt_outcome =
     (case http_loop attempt_outcome (max_retries + 1) 0 [] None of
        (Inl e, attempts) \<Rightarrow> (Inl e, attempts)
      | (Inr raw, attempts) \<Rightarrow> (read_generation_body loads raw, attempts))"

subsection \<open>Repository detection\<close>

definition is_slug_char :: "char \<Rightarrow> bool" where
  \<comment> \<open>the class \<open>[A-Za-z0-9_.-]\<close>\<close>
  "is_slug_char c = (let n = (of_char c :: nat) in
     (65 \<le> n \<and> n \<le> 90) \<or> (97 \<le> n \<and> n \<le> 122) \<or> (48 \<le> n \<and> n \<le> 57)
     \<or> c = CHR ''_'' \<or> c = CHR ''.'' \<or> c = CHR ''-'')"

text \<open>
  The pattern \<open>https://github\.com/([A-Za-z0-9_.-]+)/([A-Za-z0-9_.-]+)\<close> matched at the
  start of a text. Both groups are greedy, and a slash is not in the class, so each group is
  the longest run of class characters.
\<close>

definition match_repo_url :: "string \<Rightarrow> (string \<times> string) option" where
  "match_repo_url s =
     (if \<not> startswith ''https://github.com/'' s then None
      else
        let after_host = drop (length ''https://github.com/'') s;
            group1 = takeWhile is_slug_char after_host;
            after_owner = dropWhile is_slug_char after_host
        in if group1 = [] \<or> \<not> startswith ''/'' after_owner then None
           else
             let group2 = takeWhile is_slug_char (drop 1 after_owner)
             in if group2 = [] then None else Some (group1, group2))"

fun search_repo_url :: "string \<Rightarrow> (string \<times> string) option" where
  \<comment> \<open>\<open>re.search\<close>: the leftmost position where the pattern matches\<close>
  "search_repo_url [] = None"
| "search_repo_url (c # cs) =
     (case match_repo_url (c # cs) of
        Some groups \<Rightarrow> Some groups
      | None \<Rightarrow> search_repo_url cs)"

definition extract_repo_access :: "string \<Rightarrow> error + RepoAccess option" where
  "extract_repo_access prompt =
     (let cleaned = map (\<lambda>c. if c = CHR ''<'' \<or> c = CHR ''>'' then CHR '' '' else c) prompt in
      case search_repo_url cleaned of
        None \<Rightarrow> Inr None
      | Some (group1, group2) \<Rightarrow>
          (case RepoAccess_new group1 (removesuffix ''.git'' group2) ''main'' of
             Inl e \<Rightarrow> Inl e
           | Inr access \<Rightarrow> Inr (Some access)))"

subsection \<open>Prompts, actions, dispatch\<close>

text \<open>A history entry is the pair of the \<open>assistant\<close> text and the \<open>tool_result\<close>.\<close>

type_synonym history_entry = "string \<times> pydict"

text \<open>
  A prompt is a plain text, or the mapping \<open>_build_tool_prompt\<close> serialises: system text,
  repository, request, history, timestamp.
\<close>

datatype prompt =
    TextPrompt string
  | ToolPrompt (tp_system: string) (tp_repo: RepoAccess) (tp_request: string)
      (tp_history: "history_entry list") (tp_timestamp: int)

definition quoted :: "string \<Rightarrow> string" where
  "quoted s = DQUOTE # s @ [DQUOTE]"

definition TOOL_SYSTEM :: string where
  "TOOL_SYSTEM =
     ''You are an autonomous software agent. ''
     @ ''You must output only valid JSON with one of these shapes:'' @ [LF]
     @ ''1) {'' @ quoted ''type'' @ '':'' @ quoted ''tool_call'' @ '','' @ quoted ''tool'' @ '':''
       @ quoted ''<name>'' @ '','' @ quoted ''arguments'' @ '':{...}}'' @ [LF]
     @ ''2) {'' @ quoted ''type'' @ '':'' @ quoted ''final'' @ '','' @ quoted ''message'' @ '':''
       @ quoted ''<final summary for user>'' @ ''}'' @ [LF, LF]
     @ ''Available tools:'' @ [LF]
     @ ''- get_default_branch: {}'' @ [LF]
     @ ''- create_branch: {new_branch: string, from_branch?: string}'' @ [LF]
     @ ''- list_files: {branch?: string}'' @ [LF]
     @ ''- read_file: {path: string, branch?: string}'' @ [LF]
     @ ''- write_file: {path: string, content: string, commit_message: string, branch?: string}''
       @ [LF]
     @ ''- create_pull_request: {title: string, body: string, head_branch: string, base_branch?: string}''
       @ [LF, LF]
     @ ''Workflow guidance:'' @ [LF]
     @ ''1) Discover files'' @ [LF]
     @ ''2) Read relevant files'' @ [LF]
     @ ''3) Create a branch if needed'' @ [LF]
     @ ''4) Write updated file contents'' @ [LF]
     @ ''5) Open PR'' @ [LF]
     @ ''When done, return a final summary including PR URL.'' @ [LF]
     @ ''Never include markdown code fences.''"

definition build_tool_prompt ::
  "string \<Rightarrow> RepoAccess \<Rightarrow> history_entry list \<Rightarrow> int \<Rightarrow> prompt" where
  "build_tool_prompt user_prompt access history now =
     ToolPrompt TOOL_SYSTEM access user_prompt history now"

definition parse_action :: "(string \<Rightarrow> pyval option) \<Rightarrow> string \<Rightarrow> error + pydict" where
  "parse_action loads model_text =
     (case extract_first_json_object loads model_text of
        Inl exc \<Rightarrow> Inl (NotJSON model_text)
      | Inr (payload, trailing) \<Rightarrow>
          let action_type = map_of payload ''type'' in
          if action_type = Some (PStr ''tool_call'') then
            (if map_of payload ''tool'' = None then Inl (InvalidToolCall payload)
             else Inr (if map_of payload ''arguments'' = None
                       then payload @ [(''arguments'', PDict [])] else payload))
          else if action_type = Some (PStr ''final'') then
            (if \<not> truthy (case map_of payload ''message'' of None \<Rightarrow> PNone | Some m \<Rightarrow> m)
             then Inl (InvalidFinal payload)
             else Inr payload)
          else Inl (UnsupportedAction payload))"

definition KNOWN_TOOLS :: "string list" where
  "KNOWN_TOOLS =
     [''get_default_branch'', ''create_branch'', ''list_files'', ''read_file'', ''write_file'',
      ''create_pull_request'']"

definition execute_tool_inner ::
  "github_tools \<Rightarrow> RepoAccess \<Rightarrow> pyval \<Rightarrow> pyval \<Rightarrow> error + pydict" where
  "execute_tool_inner tls access tool_name arguments =
     (if tool_name = PStr ''get_default_branch'' then
        (case get_default_branch tls access of
           Inl e \<Rightarrow> Inl e
         | Inr b \<Rightarrow> Inr [(''default_branch'', b)])
      else if tool_name = PStr ''create_branch'' then
        (case py_index arguments ''new_branch'' of
           Inl e \<Rightarrow> Inl e
         | Inr new_branch \<Rightarrow>
             (case py_get arguments ''from_branch'' PNone of
                Inl e \<Rightarrow> Inl e
              | Inr from_branch \<Rightarrow>
                  (case create_branch tls access new_branch from_branch of
                     Inl e \<Rightarrow> Inl e
                   | Inr created \<Rightarrow> Inr [(''branch'', created)])))
      else if tool_name = PStr ''list_files'' then
        (case py_get arguments ''branch'' PNone of
           Inl e \<Rightarrow> Inl e
         | Inr br \<Rightarrow>
             (case list_files tls access br of
                Inl e \<Rightarrow> Inl e
              | Inr files \<Rightarrow>
                  Inr [(''files'', PList (take 500 files)),
                       (''total_files'', PInt (int (length files)))]))
      else if tool_name = PStr ''read_file'' then
        (case py_index arguments ''path'' of
           Inl e \<Rightarrow> Inl e
         | Inr path \<Rightarrow>
             (case py_get arguments ''branch'' PNone of
                Inl e \<Rightarrow> Inl e
              | Inr br \<Rightarrow>
                  (case read_file tls access path br of
                     Inl e \<Rightarrow> Inl e
                   | Inr content \<Rightarrow> Inr [(''path'', path), (''content'', content)])))
      else if tool_name = PStr ''write_file'' then
        (case WriteFileInput_model_validate arguments of
           Inl e \<Rightarrow> Inl e
         | Inr payload \<Rightarrow>
             (case write_file tls access payload of
                Inl e \<Rightarrow> Inl e
              | Inr commit_sha \<Rightarrow>
                  Inr [(''path'', PStr (wf_path payload)), (''commit_sha'', commit_sha)]))
      else if tool_name = PStr ''create_pull_request'' then
        (case PullRequestInput_model_validate arguments of
           Inl e \<Rightarrow> Inl e
         | Inr payload \<Rightarrow>
             (case create_pull_request tls access payload of
                Inl e \<Rightarrow> Inl e
              | Inr url \<Rightarrow> Inr [(''pull_request_url'', url)]))
      else Inl (UnknownTool tool_name))"

subsection \<open>The provider's \<open>respond\<close>\<close>

text \<open>
  The world outside the provider, for one request. The \<open>k\<close>-th generation call of the
  request (counted from 0) with a given prompt meets the attempt outcomes
  \<open>env_urlopen k prompt\<close>; the clock reads \<open>env_clock k\<close> when the \<open>k\<close>-th tool prompt is
  built; \<open>env_tools k\<close> is how the repository operations answer during iteration \<open>k\<close>.
\<close>

record environment =
  env_json_loads :: "string \<Rightarrow> pyval option"
  env_plan_schema :: string
  env_urlopen :: "nat \<Rightarrow> prompt \<Rightarrow> nat \<Rightarrow> http_outcome"
  env_clock :: "nat \<Rightarrow> int"
  env_repo_response :: "RepoAccess \<Rightarrow> error + pyval"
  env_tools :: "nat \<Rightarrow> github_tools"

text \<open>The calls the provider makes, in order: what an observer of its effects sees.\<close>

datatype call =
    Generate prompt
  | AccessCheck RepoAccess
  | Dispatch pyval pyval

definition STEP_LIMIT_MESSAGE :: string where
  "STEP_LIMIT_MESSAGE = ''I couldn't complete the workflow within the step limit.''"

text \<open>
  The loop \<open>for step_index in range(12)\<close> from iteration \<open>step_index\<close> on, with the history
  accumulated so far. Tracing is write-only and guarded by \<open>if span\<close>; the loop is modelled
  on its control and data flow.
\<close>

function tool_loop ::
  "environment \<Rightarrow> string \<Rightarrow> RepoAccess \<Rightarrow> nat \<Rightarrow> history_entry list
     \<Rightarrow> (error + AgentResponse) \<times> call list" where
  "tool_loop env user_prompt access step_index history =
     (if 12 \<le> step_index then
        (Inr \<lparr>resp_provider = ''gemini'', resp_text = STEP_LIMIT_MESSAGE\<rparr>, [])
      else
        let prompt = build_tool_prompt user_prompt access history (env_clock env step_index) in
        case fst (generate_text (env_json_loads env) (env_urlopen env step_index prompt)) of
          Inl e \<Rightarrow> (Inl e, [Generate prompt])
        | Inr model_text \<Rightarrow>
            (case parse_action (env_json_loads env) model_text of
               Inl e \<Rightarrow> (Inl e, [Generate prompt])
             | Inr action \<Rightarrow>
                 (case py_index (PDict action) ''type'' of
                    Inl e \<Rightarrow> (Inl e, [Generate prompt])
                  | Inr action_type \<Rightarrow>
                      if action_type = PStr ''final'' then
                        (case py_index (PDict action) ''message'' of
                           Inl e \<Rightarrow> (Inl e, [Generate prompt])
                         | Inr message \<Rightarrow> (AgentResponse_new ''gemini'' message, [Generate prompt]))
                      else
                        (case py_index (PDict action) ''tool'' of
                           Inl e \<Rightarrow> (Inl e, [Generate prompt])
                         | Inr tool \<Rightarrow>
                             let arguments =
                               (case map_of action ''arguments'' of None \<Rightarrow> PDict [] | Some a \<Rightarrow> a)
                             in
                             (case execute_tool_inner (env_tools env step_index) access tool arguments of
                                Inl e \<Rightarrow> (Inl e, [Generate prompt, Dispatch tool arguments])
                              | Inr tool_result \<Rightarrow>
                                  (case tool_loop env user_prompt access (Suc step_index)
                                          (history @ [(model_text, tool_result)]) of
                                     (result, calls) \<Rightarrow>
                                       (result, Generate prompt # Dispatch tool arguments # calls)))))))"
  by pat_completeness auto
termination
  by (relation "measure (\<lambda>(env, user_prompt, access, step_index, history). 12 - step_index)") auto

declare tool_loop.simps [simp del]

definition respond :: "environment \<Rightarrow> AgentRequest \<Rightarrow> (error + AgentResponse) \<times> call list" where
  "respond env request =
     (if req_mode request = ''plan'' then
        (let prompt = TextPrompt (build_plan_prompt (env_plan_schema env) (req_prompt request)) in
         case fst (generate_text (env_json_loads env) (env_urlopen env 0 prompt)) of
           Inl e \<Rightarrow> (Inl e, [Generate prompt])
         | Inr text \<Rightarrow> (Inr \<lparr>resp_provider = ''gemini'', resp_text = text\<rparr>, [Generate prompt]))
      else
        (case extract_repo_access (req_prompt request) of
           Inl e \<Rightarrow> (Inl e, [])
         | Inr None \<Rightarrow>
             (let prompt = TextPrompt (req_prompt request) in
              case fst (generate_text (env_json_loads env) (env_urlopen env 0 prompt)) of
                Inl e \<Rightarrow> (Inl e, [Generate prompt])
              | Inr text \<Rightarrow> (Inr \<lparr>resp_provider = ''gemini'', resp_text = text\<rparr>, [Generate prompt]))
         | Inr (Some access) \<Rightarrow>
             (case ensure_repo_write_access (env_repo_response env access) of
                Inl e \<Rightarrow> (Inl e, [AccessCheck access])
              | Inr u \<Rightarrow>
                  (case tool_loop env (req_prompt request) access 0 [] of
                     (result, calls) \<Rightarrow> (result, AccessCheck access # calls)))))"

section \<open>Vocabulary for the properties\<close>

text \<open>
  The failures of one attempt that the retry loop handles by going on to the next attempt,
  and the error it keeps for each.
\<close>

fun is_transport_failure :: "http_outcome \<Rightarrow> bool" where
  "is_transport_failure Timeout = True"
| "is_transport_failure (URLError reason) = True"
| "is_transport_failure other = False"

fun transport_error :: "nat \<Rightarrow> http_outcome \<Rightarrow> error" where
  "transport_error attempt (URLError reason) = NetworkError reason"
| "transport_error attempt other = TimedOut (attempt + 1) (max_retries + 1)"

text \<open>
  What iteration \<open>step_index\<close> of the loop decodes to, given the history so far: the
  generation call and the decoding of its text, as the loop body performs them.
\<close>

datatype iteration =
    Raises error
  | Final pyval
  | ToolCall string pyval pyval

definition decode_iteration ::
  "environment \<Rightarrow> string \<Rightarrow> RepoAccess \<Rightarrow> nat \<Rightarrow> history_entry list \<Rightarrow> iteration" where
  "decode_iteration env user_prompt access step_index history =
     (let prompt = build_tool_prompt user_prompt access history (env_clock env step_index) in
      case fst (generate_text (env_json_loads env) (env_urlopen env step_index prompt)) of
        Inl e \<Rightarrow> Raises e
      | Inr model_text \<Rightarrow>
          (case parse_action (env_json_loads env) model_text of
             Inl e \<Rightarrow> Raises e
           | Inr action \<Rightarrow>
               (case py_index (PDict action) ''type'' of
                  Inl e \<Rightarrow> Raises e
                | Inr action_type \<Rightarrow>
                    if action_type = PStr ''final'' then
                      (case py_index (PDict action) ''message'' of
                         Inl e \<Rightarrow> Raises e
                       | Inr message \<Rightarrow> Final message)
                    else
                      (case py_index (PDict action) ''tool'' of
                         Inl e \<Rightarrow> Raises e
                       | Inr tool \<Rightarrow>
                           ToolCall model_text tool
                             (case map_of action ''arguments'' of None \<Rightarrow> PDict [] | Some a \<Rightarrow> a)))))"

text \<open>The prompts handed to the generation call, in order, and the tool dispatches.\<close>

fun prompts_of :: "call list \<Rightarrow> prompt list" where
  "prompts_of [] = []"
| "prompts_of (Generate p # cs) = p # prompts_of cs"
| "prompts_of (c # cs) = prompts_of cs"

fun dispatches_of :: "call list \<Rightarrow> (pyval \<times> pyval) list" where
  "dispatches_of [] = []"
| "dispatches_of (Dispatch tool arguments # cs) = (tool, arguments) # dispatches_of cs"
| "dispatches_of (c # cs) = dispatches_of cs"

text \<open>
  \<open>tool_steps env user_prompt access i h steps\<close>: from iteration \<open>i\<close> with history \<open>h\<close>,
  the next iterations each decode to a tool call whose dispatch succeeds; \<open>steps\<close> lists,
  in order, the model text and the tool result of each.
\<close>

fun tool_steps ::
  "environment \<Rightarrow> string \<Rightarrow> RepoAccess \<Rightarrow> nat \<Rightarrow> history_entry list \<Rightarrow> history_entry list \<Rightarrow> bool" where
  "tool_steps env user_prompt access i h [] = True"
| "tool_steps env user_prompt access i h ((model_text, tool_result) # steps) =
     (case decode_iteration env user_prompt access i h of
        ToolCall t tool arguments \<Rightarrow>
          t = model_text
          \<and> execute_tool_inner (env_tools env i) access tool arguments = Inr tool_result
          \<and> tool_steps env user_prompt access (Suc i) (h @ [(model_text, tool_result)]) steps
      | other \<Rightarrow> False)"

fun is_dict :: "pyval \<Rightarrow> bool" where
  "is_dict (PDict d) = True"
| "is_dict v = False"

section \<open>Concrete inputs\<close>

definition example_trace :: RequestTrace where
  "example_trace = \<lparr>request_id = ''r1'', metadata = [(''provider'', PStr ''gemini'')],
     rt_started_at = ''t0'',
     root = TraceSpan ''request.lifecycle'' ''in_progress'' ''t0'' 0 None None [] []
       [TraceSpan ''llm.workflow'' ''in_progress'' ''t1'' 1 None None
          [(''headers'', PList [PStr ''Authorization: Bearer abc'', PStr ''x''])] [] []]\<rparr>"


definition example_object :: pydict where
  "example_object = [(''note'', PStr (''a } b '' @ [DQUOTE] @ '' { c'')), (''n'', PInt 3)]"

definition example_text :: string where
  "example_text = ''  Result: '' @ dumps (PDict example_object) @ ''  done  ''"

text \<open>A stand-in for \<open>json.loads\<close> that reads the two object texts used below.\<close>

definition example_loads :: "string \<Rightarrow> pyval option" where
  "example_loads s =
     (if s = ''{}'' then Some (PDict [])
      else if s = dumps (PDict example_object) then Some (PDict example_object)
      else None)"

text \<open>
  A scripted world: generation call \<open>k\<close> answers, at its first attempt, with a response body
  whose single text part is the serialisation of the \<open>k\<close>-th scripted action (the last one
  from then on). \<open>json.loads\<close> reads back exactly the texts the script produces.
\<close>

definition wrap_body :: "string \<Rightarrow> pyval" where
  "wrap_body t =
     PDict [(''candidates'',
       PList [PDict [(''content'', PDict [(''parts'', PList [PDict [(''text'', PStr t)]])])]])]"

definition scripted_loads :: "pyval list \<Rightarrow> string \<Rightarrow> pyval option" where
  "scripted_loads script s =
     map_of (map (\<lambda>v. (dumps v, v)) (script @ map (\<lambda>v. wrap_body (dumps v)) script)) s"

definition example_tools :: github_tools where
  "example_tools =
     \<lparr>get_default_branch = (\<lambda>access. Inr (PStr ''main'')),
      create_branch = (\<lambda>access new_branch from_branch. Inr new_branch),
      list_files = (\<lambda>access br. Inr [PStr ''README.md'', PStr ''src/app.py'']),
      read_file = (\<lambda>access path br. Inr (PStr ''print(1)'')),
      write_file = (\<lambda>access payload. Inr (PStr ''abc123'')),
      create_pull_request = (\<lambda>access payload. Inr (PStr ''https://github.com/acme/widgets/pull/4''))\<rparr>"

definition scripted_env :: "pyval list \<Rightarrow> environment" where
  "scripted_env script =
     \<lparr>env_json_loads = scripted_loads script,
      env_plan_schema = ''{}'',
      env_urlopen = (\<lambda>k p attempt. HttpOk (dumps (wrap_body (dumps (script ! min k (length script - 1)))))),
      env_clock = (\<lambda>k. 1700000000 + int k),
      env_repo_response = (\<lambda>access. Inr (PDict [(''permissions'', PDict [(''push'', PBool True)])])),
      env_tools = (\<lambda>k. example_tools)\<rparr>"

definition list_files_action :: pyval where
  "list_files_action =
     PDict [(''type'', PStr ''tool_call''), (''tool'', PStr ''list_files''), (''arguments'', PDict [])]"

definition final_action :: pyval where
  "final_action = PDict [(''type'', PStr ''final''), (''message'', PStr ''Created PR #4'')]"

definition delete_repo_action :: pyval where
  "delete_repo_action =
     PDict [(''type'', PStr ''tool_call''), (''tool'', PStr ''delete_repo''), (''arguments'', PDict [])]"

definition example_request :: AgentRequest where
  "example_request =
     \<lparr>req_prompt = ''update docs in https://github.com/acme/widgets'', req_mode = ''chat'',
      req_context = []\<rparr>"

definition example_access :: RepoAccess where
  "example_access = \<lparr>owner = ''acme'', repo = ''widgets'', branch = ''main''\<rparr>"

definition list_files_text :: string where
  "list_files_text = dumps list_files_action"

definition list_files_result :: pydict where
  "list_files_result =
     [(''files'', PList [PStr ''README.md'', PStr ''src/app.py'']), (''total_files'', PInt 2)]"

definition no_permissions_env :: environment where
  "no_permissions_env =
     (scripted_env [list_files_action, final_action])
       \<lparr>env_repo_response := (\<lambda>access. Inr (PDict [(''name'', PStr ''widgets'')]))\<rparr>"

section \<open>Properties of the trace tree\<close>

lemma map_of_map_snd:
  "map_of (map (\<lambda>(k, v). (k, f v)) kvs) k = map_option f (map_of kvs k)"
  by (induction kvs) auto

lemma safe_value_redacts:
  "value_at v p = Some (PStr s) \<Longrightarrow> mentions_secret s \<Longrightarrow>
   value_at (safe_value v) p = Some (PStr ''[REDACTED]'')"
proof (induction v p rule: value_at.induct)
  case (1 v)
  then show ?case by simp
next
  case (2 kvs k p)
  then show ?case by (auto simp: map_of_map_snd split: option.splits)
next
  case (3 xs i p)
  then show ?case by (auto split: if_splits)
qed simp_all

lemma value_at_append:
  "value_at v p = Some w \<Longrightarrow> value_at v (p @ q) = value_at w q"
  by (induction v p rule: value_at.induct) (auto split: option.splits if_splits)

lemma span_doc:
  "span_at sp is = Some sp' \<Longrightarrow>
   value_at (TraceSpan_as_dict sp) (span_path is) = Some (TraceSpan_as_dict sp')"
proof (induction sp "is" rule: span_at.induct)
  case (1 sp)
  then show ?case by simp
next
  case (2 sp i "is")
  then show ?case by (cases sp) (auto split: if_splits)
qed

lemma redacted_marker_clean: "\<not> mentions_secret ''[REDACTED]''"
  by code_simp

text \<open>
  C1, as stated, fails: redaction looks at the string value, never at the key that holds
  it. A span whose data maps the key \<open>api_key\<close> to \<open>hunter2\<close> serialises with
  \<open>hunter2\<close> intact at that position.
\<close>

theorem C1_key_redaction_counterexample:
  "mentions_secret ''api_key'' \<and>
   value_at (TraceSpan_as_dict
       (new_span ''llm.workflow'' [(''api_key'', PStr ''hunter2'')] ''t0'' 0))
     [Key ''data'', Key ''api_key''] = Some (PStr ''hunter2'')"
  by code_simp

text \<open>
  C1 (amended): for every data mapping serialised into the trace document (the metadata,
  the data of any span of the tree, the data of any event of any span), a string value at any
  nesting depth through mappings and sequences that itself contains, case-insensitively, one
  of \<open>token\<close>, \<open>authorization\<close>, \<open>api_key\<close>, \<open>secret\<close> is replaced by the fixed
  marker \<open>[REDACTED]\<close>; the document does not hold the original string at that position.
\<close>

theorem C1_value_redaction:
  assumes "data_at t pos = Some d"
    and "value_at (PDict d) p = Some (PStr s)"
    and "mentions_secret s"
  shows "value_at (RequestTrace_as_dict t) (doc_path pos @ p) = Some (PStr ''[REDACTED]'')
         \<and> ''[REDACTED]'' \<noteq> s"
proof -
  have red: "value_at (safe_value (PDict d)) p = Some (PStr ''[REDACTED]'')"
    using assms(2,3) by (rule safe_value_redacts)
  have neq: "''[REDACTED]'' \<noteq> s"
    using assms(3) redacted_marker_clean by auto
  have "value_at (RequestTrace_as_dict t) (doc_path pos) = Some (safe_value (PDict d))"
  proof (cases pos)
    case Metadata
    then show ?thesis using assms(1) by (simp add: RequestTrace_as_dict_def)
  next
    case (SpanData "is")
    then obtain sp where sp: "span_at (root t) is = Some sp" "sp_data sp = d"
      using assms(1) by auto
    have "value_at (TraceSpan_as_dict (root t)) (span_path is @ [Key ''data''])
          = value_at (TraceSpan_as_dict sp) [Key ''data'']"
      using span_doc [OF sp(1)] by (rule value_at_append)
    then show ?thesis using SpanData sp(2) by (cases sp) (simp add: RequestTrace_as_dict_def)
  next
    case (EventData "is" j)
    then obtain sp where sp: "span_at (root t) is = Some sp" "j < length (sp_events sp)"
       "ev_data (sp_events sp ! j) = d"
      using assms(1) by (auto split: option.splits if_splits)
    have "value_at (TraceSpan_as_dict (root t))
            (span_path is @ [Key ''events'', Idx j, Key ''data''])
          = value_at (TraceSpan_as_dict sp) [Key ''events'', Idx j, Key ''data'']"
      using span_doc [OF sp(1)] by (rule value_at_append)
    then show ?thesis using EventData sp(2,3)
      by (cases sp) (simp add: RequestTrace_as_dict_def TraceEvent_as_dict_def)
  qed
  then have "value_at (RequestTrace_as_dict t) (doc_path pos @ p)
             = value_at (safe_value (PDict d)) p"
    by (rule value_at_append)
  with red neq show ?thesis by simp
qed

theorem C1_value_redaction_witness:
  "data_at example_trace (SpanData [0])
     = Some [(''headers'', PList [PStr ''Authorization: Bearer abc'', PStr ''x''])]
   \<and> value_at (PDict [(''headers'', PList [PStr ''Authorization: Bearer abc'', PStr ''x''])])
       [Key ''headers'', Idx 0] = Some (PStr ''Authorization: Bearer abc'')
   \<and> mentions_secret ''Authorization: Bearer abc''
   \<and> value_at (RequestTrace_as_dict example_trace)
       (doc_path (SpanData [0]) @ [Key ''headers'', Idx 0]) = Some (PStr ''[REDACTED]'')
   \<and> ''[REDACTED]'' \<noteq> ''Authorization: Bearer abc''"
proof -
  have a: "data_at example_trace (SpanData [0])
     = Some [(''headers'', PList [PStr ''Authorization: Bearer abc'', PStr ''x''])]"
    by code_simp
  have b: "value_at (PDict [(''headers'', PList [PStr ''Authorization: Bearer abc'', PStr ''x''])])
       [Key ''headers'', Idx 0] = Some (PStr ''Authorization: Bearer abc'')"
    by code_simp
  have c: "mentions_secret ''Authorization: Bearer abc''"
    by code_simp
  show ?thesis using a b c C1_value_redaction [OF a b c] by simp
qed

text \<open>
  C7: finish is idempotent. The first \<open>finish\<close> on a span not yet finished records the
  status it is given, the finishing time and the duration measured from the span's start on
  the monotonic clock. Whatever the span, a second \<open>finish\<close>, with any status, extra data
  and clock readings, is a no-op: the span stays as the first call made it, so status,
  finishing time and duration are those recorded by the first call.
\<close>

theorem C7_finish_idempotent:
  "finish fl status2 extra2 iso2 mono2 (finish fl status1 extra1 iso1 mono1 sp)
     = finish fl status1 extra1 iso1 mono1 sp
   \<and> (sp_finished_at sp = None \<longrightarrow>
        sp_status (finish fl status1 extra1 iso1 mono1 sp) = status1
        \<and> sp_finished_at (finish fl status1 extra1 iso1 mono1 sp) = Some iso1
        \<and> sp_duration_ms (finish fl status1 extra1 iso1 mono1 sp)
            = Some (py_int (fl (fl (mono1 - sp_started_at_monotonic sp) * 1000)))
        \<and> sp_status (finish fl status2 extra2 iso2 mono2 (finish fl status1 extra1 iso1 mono1 sp))
            = status1
        \<and> sp_finished_at (finish fl status2 extra2 iso2 mono2 (finish fl status1 extra1 iso1 mono1 sp))
            = Some iso1
        \<and> sp_duration_ms (finish fl status2 extra2 iso2 mono2 (finish fl status1 extra1 iso1 mono1 sp))
            = Some (py_int (fl (fl (mono1 - sp_started_at_monotonic sp) * 1000))))"
  by (cases sp) (simp add: finish_def)

theorem C7_finish_idempotent_witness:
  "sp_finished_at (new_span ''llm.step'' [] ''t0'' 1) = None
   \<and> sp_status (finish (\<lambda>x. x) ''ok'' [(''action_type'', PStr ''final'')] ''t2'' 5
        (finish (\<lambda>x. x) ''error'' [] ''t1'' 2 (new_span ''llm.step'' [] ''t0'' 1))) = ''error''
   \<and> sp_finished_at (finish (\<lambda>x. x) ''ok'' [(''action_type'', PStr ''final'')] ''t2'' 5
        (finish (\<lambda>x. x) ''error'' [] ''t1'' 2 (new_span ''llm.step'' [] ''t0'' 1))) = Some ''t1''
   \<and> sp_duration_ms (finish (\<lambda>x. x) ''ok'' [(''action_type'', PStr ''final'')] ''t2'' 5
        (finish (\<lambda>x. x) ''error'' [] ''t1'' 2 (new_span ''llm.step'' [] ''t0'' 1))) = Some 1000"
proof -
  have a: "sp_finished_at (new_span ''llm.step'' [] ''t0'' 1) = None"
    by (simp add: new_span_def)
  have s: "sp_started_at_monotonic (new_span ''llm.step'' [] ''t0'' 1) = 1"
    by (simp add: new_span_def)
  have v: "py_int ((2 - 1) * 1000) = 1000"
    by (simp add: py_int_def)
  note t = C7_finish_idempotent [of "\<lambda>x. x" "''ok''" "[(''action_type'', PStr ''final'')]" "''t2''" 5
      "''error''" "[]" "''t1''" 2 "new_span ''llm.step'' [] ''t0'' 1",
      THEN conjunct2, rule_format, OF a]
  show ?thesis
    using a t by (simp only: s v)
qed

section \<open>Properties of the structured extractor\<close>

lemma transparent_Nil: "transparent d []"
  by (simp add: transparent_def)

lemma transparent_append:
  "transparent d a \<Longrightarrow> transparent d b \<Longrightarrow> transparent d (a @ b)"
  by (simp add: transparent_def add.assoc)

lemma transparent_plain_char:
  "c \<noteq> DQUOTE \<Longrightarrow> c \<noteq> LBRACE \<Longrightarrow> c \<noteq> RBRACE \<Longrightarrow> transparent d [c]"
  by (simp add: transparent_def)

lemma transparent_plain:
  "list_all (\<lambda>c. c \<noteq> DQUOTE \<and> c \<noteq> LBRACE \<and> c \<noteq> RBRACE) cs \<Longrightarrow> transparent d cs"
proof (induction cs)
  case Nil
  show ?case by (rule transparent_Nil)
next
  case (Cons c cs)
  then have "transparent d [c]" "transparent d cs"
    by (simp_all add: transparent_plain_char)
  then have "transparent d ([c] @ cs)" by (rule transparent_append)
  then show ?case by simp
qed

lemma transparent_join:
  "transparent d sep \<Longrightarrow> list_all (transparent d) ts \<Longrightarrow> transparent d (join sep ts)"
proof (induction sep ts rule: join.induct)
  case (1 sep)
  then show ?case by (simp add: transparent_Nil)
next
  case (2 sep x)
  then show ?case by simp
next
  case (3 sep x y ys)
  then show ?case by (simp add: transparent_append)
qed

lemma char_of_neq:
  fixes n :: nat
  assumes "n < 256" and "n \<noteq> of_char c"
  shows "char_of n \<noteq> c"
proof
  assume "char_of n = c"
  then have "(of_char (char_of n :: char) :: nat) = of_char c" by simp
  then have "n mod 256 = of_char c" by simp
  with assms show False by simp
qed

lemma hex_digit_plain:
  assumes "n < 16"
  shows "hex_digit n \<noteq> DQUOTE" and "hex_digit n \<noteq> BACKSLASH"
proof -
  have lo: "char_of (48 + n) \<noteq> DQUOTE" "char_of (48 + n) \<noteq> BACKSLASH" if "n < 10"
    using that by (intro char_of_neq; simp)+
  have hi: "char_of (87 + n) \<noteq> DQUOTE" "char_of (87 + n) \<noteq> BACKSLASH" if "\<not> n < 10"
    using that assms by (intro char_of_neq; simp)+
  show "hex_digit n \<noteq> DQUOTE" "hex_digit n \<noteq> BACKSLASH"
    unfolding hex_digit_def using lo hi by auto
qed

lemma escape_char_shape:
  "(escape_char c = [c] \<and> c \<noteq> DQUOTE \<and> c \<noteq> BACKSLASH)
   \<or> (\<exists>x. escape_char c = [BACKSLASH, x])
   \<or> (\<exists>a b. a < 16 \<and> b < 16 \<and>
        escape_char c = [BACKSLASH, CHR ''u'', CHR ''0'', CHR ''0'', hex_digit a, hex_digit b])"
proof -
  have "(of_char c :: nat) div 16 < 16" "(of_char c :: nat) mod 16 < 16"
    by (simp_all add: less_mult_imp_div_less)
  then have "\<exists>a b. a < 16 \<and> b < 16 \<and>
      [BACKSLASH, CHR ''u'', CHR ''0'', CHR ''0'', hex_digit (of_char c div 16),
       hex_digit (of_char c mod 16)]
      = [BACKSLASH, CHR ''u'', CHR ''0'', CHR ''0'', hex_digit a, hex_digit b]"
    by blast
  then show ?thesis
    unfolding escape_char_def Let_def by (simp del: list.inject)
qed

lemma scan_string_plain:
  "c \<noteq> DQUOTE \<Longrightarrow> c \<noteq> BACKSLASH \<Longrightarrow>
   scan d True False i (c # rest) = scan d True False (Suc i) rest"
  by simp

lemma scan_string_escape:
  "scan d True False i (BACKSLASH # x # rest) = scan d True False (Suc (Suc i)) rest"
  by simp

lemma scan_escape_char:
  "scan d True False i (escape_char c @ rest) = scan d True False (i + length (escape_char c)) rest"
proof -
  consider (plain) "escape_char c = [c]" "c \<noteq> DQUOTE" "c \<noteq> BACKSLASH"
    | (pair) x where "escape_char c = [BACKSLASH, x]"
    | (uni) a b where "a < 16" "b < 16"
        "escape_char c = [BACKSLASH, CHR ''u'', CHR ''0'', CHR ''0'', hex_digit a, hex_digit b]"
    using escape_char_shape [of c] by blast
  then show ?thesis
  proof cases
    case plain
    then show ?thesis by (simp only: append_Cons append_Nil scan_string_plain) simp
  next
    case pair
    then show ?thesis by (simp only: append_Cons append_Nil scan_string_escape) simp
  next
    case uni
    have "scan d True False i (escape_char c @ rest)
          = scan d True False (Suc (Suc i)) (CHR ''0'' # CHR ''0'' # hex_digit a # hex_digit b # rest)"
      unfolding uni(3) by (simp only: append_Cons append_Nil scan_string_escape)
    also have "\<dots> = scan d True False (Suc (Suc (Suc (Suc i)))) (hex_digit a # hex_digit b # rest)"
      by (simp add: scan_string_plain del: scan.simps)
    also have "\<dots> = scan d True False (Suc (Suc (Suc (Suc (Suc (Suc i)))))) rest"
      using hex_digit_plain [OF uni(1)] hex_digit_plain [OF uni(2)]
      by (simp add: scan_string_plain del: scan.simps)
    finally show ?thesis by (simp add: uni(3))
  qed
qed

lemma scan_escaped_body:
  "scan d True False i (concat (map escape_char s) @ rest)
   = scan d True False (i + length (concat (map escape_char s))) rest"
proof (induction s arbitrary: i)
  case Nil
  then show ?case by simp
next
  case (Cons c s)
  show ?case
    by (simp add: scan_escape_char Cons.IH add.assoc del: scan.simps)
qed

lemma transparent_dumps_str: "transparent d (dumps_str s)"
  unfolding transparent_def
proof (intro allI)
  fix i rest
  have "scan d False False i (dumps_str s @ rest)
        = scan d True False (Suc i) (concat (map escape_char s) @ DQUOTE # rest)"
    by (simp add: dumps_str_def)
  also have "\<dots> = scan d True False (Suc i + length (concat (map escape_char s))) (DQUOTE # rest)"
    by (rule scan_escaped_body)
  also have "\<dots> = scan d False False (i + length (dumps_str s)) rest"
    by (simp add: dumps_str_def)
  finally show "scan d False False i (dumps_str s @ rest)
        = scan d False False (i + length (dumps_str s)) rest" .
qed

lemma digits_plain:
  "list_all (\<lambda>c. c \<noteq> DQUOTE \<and> c \<noteq> LBRACE \<and> c \<noteq> RBRACE) (digits n)"
proof (induction n rule: digits.induct)
  case (1 n)
  have d: "\<And>k::nat. k < 10 \<Longrightarrow> char_of (48 + k) \<noteq> DQUOTE \<and> char_of (48 + k) \<noteq> LBRACE
              \<and> char_of (48 + k) \<noteq> RBRACE"
  proof -
    fix k :: nat assume k: "k < 10"
    have "char_of (48 + k) \<noteq> DQUOTE" "char_of (48 + k) \<noteq> LBRACE"
       "char_of (48 + k) \<noteq> RBRACE"
      using k by (intro char_of_neq; simp)+
    then show "char_of (48 + k) \<noteq> DQUOTE \<and> char_of (48 + k) \<noteq> LBRACE
              \<and> char_of (48 + k) \<noteq> RBRACE" by simp
  qed
  show ?case
  proof (cases "n < 10")
    case True
    then show ?thesis using d [of n] by (subst digits.simps) simp
  next
    case False
    then show ?thesis using 1 d [of "n mod 10"] by (subst digits.simps) simp
  qed
qed

lemma transparent_dumps_int: "transparent d (dumps_int i)"
  using digits_plain by (auto simp: dumps_int_def intro!: transparent_plain)

lemma transparent_braces:
  assumes "transparent (d + 1) body" and "d \<noteq> 0"
  shows "transparent d (LBRACE # body @ [RBRACE])"
  unfolding transparent_def
proof (intro allI)
  fix i rest
  have "scan d False False i ((LBRACE # body @ [RBRACE]) @ rest)
        = scan (d + 1) False False (Suc i) (body @ RBRACE # rest)"
    by simp
  also have "\<dots> = scan (d + 1) False False (Suc i + length body) (RBRACE # rest)"
    using assms(1) by (simp add: transparent_def)
  also have "\<dots> = scan d False False (i + length (LBRACE # body @ [RBRACE])) rest"
    using assms(2) by simp
  finally show "scan d False False i ((LBRACE # body @ [RBRACE]) @ rest)
        = scan d False False (i + length (LBRACE # body @ [RBRACE])) rest" .
qed

lemma transparent_dumps: "1 \<le> d \<Longrightarrow> transparent d (dumps v)"
proof (induction v arbitrary: d)
  case PNone
  show ?case by (rule transparent_plain) simp
next
  case (PBool b)
  show ?case by (cases b) (auto intro!: transparent_plain)
next
  case (PInt i)
  show ?case by (simp add: transparent_dumps_int)
next
  case (PStr s)
  show ?case by (simp add: transparent_dumps_str)
next
  case (PList xs)
  have sep: "transparent d '', ''" by (rule transparent_plain) simp
  have "list_all (transparent d) (map dumps xs)"
    using PList by (simp add: list_all_iff)
  then have "transparent d (join '', '' (map dumps xs))"
    using sep by (intro transparent_join)
  moreover have "transparent d ''[''" "transparent d '']''"
    by (rule transparent_plain, simp)+
  ultimately have "transparent d (''['' @ join '', '' (map dumps xs) @ '']'')"
    by (intro transparent_append)
  then show ?case by simp
next
  case (PDict kvs)
  have d1: "1 \<le> d + 1" "d \<noteq> 0" using PDict.prems by simp_all
  have sep: "transparent (d + 1) '', ''" "transparent (d + 1) '': ''"
    by (rule transparent_plain, simp)+
  have "list_all (transparent (d + 1)) (map (\<lambda>(k, v). dumps_str k @ '': '' @ dumps v) kvs)"
    unfolding list_all_iff
  proof
    fix t assume "t \<in> set (map (\<lambda>(k, v). dumps_str k @ '': '' @ dumps v) kvs)"
    then obtain k v where kv: "(k, v) \<in> set kvs" "t = dumps_str k @ '': '' @ dumps v"
      by auto
    have "transparent (d + 1) (dumps v)"
      using PDict.IH [of "(k, v)" v "d + 1"] kv(1) d1(1) by simp
    then show "transparent (d + 1) t"
      unfolding kv(2) using sep(2) by (intro transparent_append transparent_dumps_str)
  qed
  then have "transparent (d + 1) (join '', '' (map (\<lambda>(k, v). dumps_str k @ '': '' @ dumps v) kvs))"
    using sep(1) by (intro transparent_join)
  then have "transparent d (LBRACE # join '', '' (map (\<lambda>(k, v). dumps_str k @ '': '' @ dumps v) kvs) @ [RBRACE])"
    using d1(2) by (rule transparent_braces)
  then show ?case by simp
qed

lemma scan_dumps_object:
  "scan 0 False False i (dumps (PDict kvs) @ post) = Some (i + length (dumps (PDict kvs)) - 1)"
proof -
  let ?body = "join '', '' (map (\<lambda>(k, v). dumps_str k @ '': '' @ dumps v) kvs)"
  have "list_all (transparent 1) (map (\<lambda>(k, v). dumps_str k @ '': '' @ dumps v) kvs)"
    unfolding list_all_iff
  proof
    fix t assume "t \<in> set (map (\<lambda>(k, v). dumps_str k @ '': '' @ dumps v) kvs)"
    then obtain k v where kv: "t = dumps_str k @ '': '' @ dumps v" by auto
    have "transparent 1 '': ''" by (rule transparent_plain) simp
    then show "transparent 1 t"
      unfolding kv by (intro transparent_append transparent_dumps_str transparent_dumps) simp_all
  qed
  moreover have "transparent 1 '', ''" by (rule transparent_plain) simp
  ultimately have body: "transparent 1 ?body" by (intro transparent_join)
  have "scan 0 False False i (dumps (PDict kvs) @ post)
        = scan 1 False False (Suc i) (?body @ RBRACE # post)" by simp
  also have "\<dots> = scan 1 False False (Suc i + length ?body) (RBRACE # post)"
    using body by (simp add: transparent_def)
  also have "\<dots> = Some (Suc i + length ?body)" by simp
  finally show ?thesis by simp
qed

lemma str_find_first:
  "c \<notin> set pre \<Longrightarrow> str_find c (pre @ c # rest) = Some (length pre)"
  by (induction pre) auto

lemma str_find_None: "str_find c s = None \<longleftrightarrow> c \<notin> set s"
  by (induction s) auto


lemma str_find_Some:
  "str_find c s = Some n \<Longrightarrow> n < length s \<and> s ! n = c \<and> c \<notin> set (take n s)"
proof (induction s arbitrary: n)
  case Nil
  then show ?case by simp
next
  case (Cons x xs)
  show ?case
  proof (cases "x = c")
    case True
    with Cons.prems show ?thesis by simp
  next
    case False
    with Cons.prems obtain m where m: "str_find c xs = Some m" "n = Suc m"
      by auto
    from Cons.IH [OF m(1)] False show ?thesis by (simp add: m(2))
  qed
qed

lemma scan_bounds:
  "scan d s e i cs = Some n \<Longrightarrow> i \<le> n \<and> n < i + length cs"
proof (induction cs arbitrary: d s e i)
  case Nil
  then show ?case by simp
next
  case (Cons c cs)
  from Cons.prems show ?case
    by (auto split: if_splits dest!: Cons.IH)
qed

text \<open>
  C3, as stated, fails: the remainder is not returned verbatim. For the text \<open>{} x\<close> the
  object is \<open>{}\<close> and everything after its closing brace is \<open> x\<close> (with the blank), yet the
  extractor returns \<open>x\<close>.
\<close>

theorem C3_trailing_verbatim_counterexample:
  "dumps (PDict []) = ''{}''
   \<and> extract_first_json_object example_loads ''{} x'' = Inr ([], ''x'')
   \<and> drop (length (dumps (PDict []))) ''{} x'' = '' x''
   \<and> '' x'' \<noteq> ''x''"
  by code_simp

text \<open>
  C3 (amended): when the fence-stripped text is some brace-free prefix followed by the
  serialisation of a JSON object (whatever braces, quotes or backslashes its strings hold)
  followed by any remainder, the extractor hands exactly that serialisation to the parser;
  with a parser that reads the serialisation back, it returns the object and, as trailing
  text, everything after the matching closing brace with surrounding whitespace removed.
\<close>

theorem C3_extract_roundtrip_stripped:
  assumes "strip_code_fences text = pre @ dumps (PDict obj) @ post"
    and "LBRACE \<notin> set pre"
    and "loads (dumps (PDict obj)) = Some (PDict obj)"
  shows "extract_first_json_object loads text = Inr (obj, strip post)"
proof -
  define raw where "raw = dumps (PDict obj)"
  obtain body where raw: "raw = LBRACE # body" by (simp add: raw_def)
  have cand: "strip_code_fences text = pre @ raw @ post"
    using assms(1) by (simp add: raw_def)
  have find: "str_find LBRACE (pre @ raw @ post) = Some (length pre)"
    using assms(2) by (simp add: raw str_find_first)
  have len: "0 < length raw" by (simp add: raw)
  have sc: "scan 0 False False (length pre) (raw @ post) = Some (length pre + length raw - 1)"
    unfolding raw_def by (rule scan_dumps_object)
  have e1: "Suc (length pre + length raw - Suc 0) = length pre + length raw"
    using len by simp
  have ld: "loads raw = Some (PDict obj)"
    using assms(3) by (simp add: raw_def)
  show ?thesis
    unfolding extract_first_json_object_def Let_def cand find
    by (simp add: sc e1 ld)
qed

theorem C3_extract_roundtrip_stripped_witness:
  "strip_code_fences example_text = ''Result: '' @ dumps (PDict example_object) @ ''  done''
   \<and> LBRACE \<notin> set ''Result: ''
   \<and> example_loads (dumps (PDict example_object)) = Some (PDict example_object)
   \<and> extract_first_json_object example_loads example_text = Inr (example_object, ''done'')"
proof -
  have a: "strip_code_fences example_text
           = ''Result: '' @ dumps (PDict example_object) @ ''  done''"
    by code_simp
  have b: "LBRACE \<notin> set ''Result: ''" by simp
  have c: "example_loads (dumps (PDict example_object)) = Some (PDict example_object)"
    by code_simp
  have d: "strip ''  done'' = ''done''" by code_simp
  show ?thesis using a b c C3_extract_roundtrip_stripped [where loads = example_loads, OF a b c]
    by (simp add: d)
qed

text \<open>
  C4, as stated, fails: the extractor starts at the first \<open>{\<close> of the text, quoted or not.
  The text consisting of a quoted brace has no \<open>{\<close> outside a quoted string, yet the
  extractor does not report that no object was found; it reports an unterminated object.
\<close>

theorem C4_quoted_brace_counterexample:
  "first_unquoted_brace False False 0 (strip_code_fences [DQUOTE, LBRACE, DQUOTE]) = None
   \<and> extract_first_json_object example_loads [DQUOTE, LBRACE, DQUOTE] = Inl UnterminatedObject
   \<and> extract_first_json_object example_loads [DQUOTE, LBRACE, DQUOTE] \<noteq> Inl NoObjectFound"
  by code_simp

text \<open>
  C4 (amended): the extractor fails with the no-object-found error if and only if the
  fence-stripped text contains no \<open>{\<close> at all, and whenever it succeeds the candidate it
  parsed begins at the first \<open>{\<close> of the fence-stripped text, inside a quoted string or not.
\<close>

theorem C4_first_brace:
  "(extract_first_json_object loads text = Inl NoObjectFound
      \<longleftrightarrow> LBRACE \<notin> set (strip_code_fences text))
   \<and> (extract_first_json_object loads text = Inr (obj, trailing) \<longrightarrow>
        (\<exists>pre body post.
           strip_code_fences text = pre @ (LBRACE # body) @ post
           \<and> LBRACE \<notin> set pre
           \<and> loads (LBRACE # body) = Some (PDict obj)
           \<and> trailing = strip post))"
proof (intro conjI impI)
  show "extract_first_json_object loads text = Inl NoObjectFound
      \<longleftrightarrow> LBRACE \<notin> set (strip_code_fences text)"
  proof (cases "str_find LBRACE (strip_code_fences text)")
    case None
    then show ?thesis
      using str_find_None [of LBRACE "strip_code_fences text"]
      by (simp add: extract_first_json_object_def)
  next
    case (Some start)
    with str_find_None [of LBRACE "strip_code_fences text"]
    have "LBRACE \<in> set (strip_code_fences text)" by auto
    with Some show ?thesis
      by (simp add: extract_first_json_object_def Let_def
               split: option.splits pyval.splits)
  qed
next
  assume ok: "extract_first_json_object loads text = Inr (obj, trailing)"
  define cand where "cand = strip_code_fences text"
  from ok obtain start where start: "str_find LBRACE cand = Some start"
    by (auto simp: extract_first_json_object_def cand_def Let_def split: option.splits)
  from ok start obtain n where n: "scan 0 False False start (drop start cand) = Some n"
    by (auto simp: extract_first_json_object_def cand_def Let_def split: option.splits)
  define raw where "raw = take (n + 1 - start) (drop start cand)"
  from ok start n have ld: "loads raw = Some (PDict obj)" and tr: "trailing = strip (drop (n + 1) cand)"
    by (auto simp: extract_first_json_object_def cand_def [symmetric] raw_def Let_def
             split: option.splits pyval.splits)
  from str_find_Some [OF start]
  have s: "start < length cand" "cand ! start = LBRACE" "LBRACE \<notin> set (take start cand)"
    by simp_all
  from scan_bounds [OF n] have b: "start \<le> n" by simp
  have "drop start cand = LBRACE # drop (Suc start) cand"
    using s(1,2) by (metis Cons_nth_drop_Suc)
  then have rawc: "raw = LBRACE # take (n - start) (drop (Suc start) cand)"
    using b by (simp add: raw_def Suc_diff_le)
  have d1: "drop (n + 1) cand = drop (n + 1 - start) (drop start cand)"
    using b by simp
  have "drop start cand = raw @ drop (n + 1 - start) (drop start cand)"
    unfolding raw_def by (rule append_take_drop_id [symmetric])
  then have "drop start cand = raw @ drop (n + 1) cand"
    by (simp only: d1)
  then have "take start cand @ drop start cand = take start cand @ raw @ drop (n + 1) cand"
    by (rule arg_cong [where f = "\<lambda>x. take start cand @ x"])
  then have "cand = take start cand @ raw @ drop (n + 1) cand"
    by (simp only: append_take_drop_id)
  with rawc ld tr s(3)
  show "\<exists>pre body post.
           strip_code_fences text = pre @ (LBRACE # body) @ post
           \<and> LBRACE \<notin> set pre
           \<and> loads (LBRACE # body) = Some (PDict obj)
           \<and> trailing = strip post"
    unfolding cand_def [symmetric] by metis
qed

theorem C4_first_brace_witness:
  "extract_first_json_object example_loads ''a {} b'' = Inr ([], ''b'')
   \<and> (\<exists>pre body post.
           strip_code_fences ''a {} b'' = pre @ (LBRACE # body) @ post
           \<and> LBRACE \<notin> set pre
           \<and> example_loads (LBRACE # body) = Some (PDict [])
           \<and> ''b'' = strip post)"
proof -
  have a: "extract_first_json_object example_loads ''a {} b'' = Inr ([], ''b'')"
    by code_simp
  from C4_first_brace [of example_loads "''a {} b''" "[]" "''b''"] a
  show ?thesis by blast
qed

section \<open>Properties of the generation call\<close>

lemma http_loop_step:
  "is_transport_failure (out a) \<Longrightarrow>
   http_loop out (Suc r) a raw le = http_loop out r (Suc a) raw (Some (transport_error a (out a)))"
  by (cases "out a") simp_all

lemma http_loop_failures:
  "\<forall>a<n. is_transport_failure (out (start + a)) \<Longrightarrow>
   http_loop out (n + r) start raw le =
   http_loop out r (start + n) raw
     (if n = 0 then le else Some (transport_error (start + n - 1) (out (start + n - 1))))"
proof (induction n arbitrary: start le)
  case 0
  then show ?case by simp
next
  case (Suc n)
  have f0: "is_transport_failure (out start)" using Suc.prems by force
  have rest: "\<forall>a<n. is_transport_failure (out (Suc start + a))"
    using Suc.prems by force
  have "http_loop out (Suc n + r) start raw le
        = http_loop out (n + r) (Suc start) raw (Some (transport_error start (out start)))"
    using http_loop_step [of out start, OF f0] by simp
  also have "\<dots> = http_loop out r (Suc start + n) raw
     (if n = 0 then Some (transport_error start (out start))
      else Some (transport_error (Suc start + n - 1) (out (Suc start + n - 1))))"
    by (rule Suc.IH [OF rest])
  finally show ?case by (cases n) simp_all
qed

lemma generate_text_after_failures:
  assumes "k \<le> max_retries" and "\<forall>a<k. is_transport_failure (out a)"
  shows "\<exists>le. generate_text loads out =
     (case http_loop out (Suc (max_retries - k)) k [] le of
        (Inl e, attempts) \<Rightarrow> (Inl e, attempts)
      | (Inr raw, attempts) \<Rightarrow> (read_generation_body loads raw, attempts))"
proof -
  have r: "max_retries + 1 = k + Suc (max_retries - k)"
    using assms(1) by simp
  from assms(2) have "\<forall>a<k. is_transport_failure (out (0 + a))" by simp
  from http_loop_failures [OF this, of "Suc (max_retries - k)" "[]" None]
  have "http_loop out (k + Suc (max_retries - k)) 0 [] None
        = http_loop out (Suc (max_retries - k)) k []
            (if k = 0 then None else Some (transport_error (0 + k - 1) (out (0 + k - 1))))"
    by (simp del: http_loop.simps)
  then have eq: "http_loop out (max_retries + 1) 0 [] None
        = http_loop out (Suc (max_retries - k)) k []
            (if k = 0 then None else Some (transport_error (0 + k - 1) (out (0 + k - 1))))"
    by (simp only: r [symmetric])
  show ?thesis
    unfolding generate_text_def eq by (rule exI) (rule refl)
qed

text \<open>
  The outcomes the loop has a handler for. The configured bound is 2 retries, 3 attempts in
  all. When every attempt is a timeout or a \<open>URLError\<close>, the call makes all 3 attempts and
  then raises the error of the last one. An HTTP error response met at attempt \<open>k\<close>, after
  such failures only, is raised at once and no further attempt is made. The first response
  ends the attempts.
\<close>

lemma retry_policy_handled_outcomes:
  "max_retries = 2
   \<and> ((\<forall>a\<le>max_retries. is_transport_failure (out_a a)) \<longrightarrow>
        generate_text loads out_a
          = (Inl (transport_error max_retries (out_a max_retries)), max_retries + 1))
   \<and> (k \<le> max_retries \<and> (\<forall>a<k. is_transport_failure (out_b a)) \<and> out_b k = HTTPError code detail \<longrightarrow>
        generate_text loads out_b = (Inl (ProviderError code detail), k + 1))
   \<and> (j \<le> max_retries \<and> (\<forall>a<j. is_transport_failure (out_c a)) \<and> out_c j = HttpOk body \<longrightarrow>
        generate_text loads out_c = (read_generation_body loads body, j + 1))"
proof (intro conjI impI)
  show "max_retries = 2" by (simp add: max_retries_def)
next
  assume "\<forall>a\<le>max_retries. is_transport_failure (out_a a)"
  then have "\<forall>a<max_retries + 1. is_transport_failure (out_a (0 + a))" by simp
  from http_loop_failures [OF this, of 0 "[]" None]
  have "http_loop out_a (max_retries + 1) 0 [] None
        = (Inl (transport_error max_retries (out_a max_retries)), max_retries + 1)"
    by simp
  then show "generate_text loads out_a
          = (Inl (transport_error max_retries (out_a max_retries)), max_retries + 1)"
    unfolding generate_text_def by (simp del: http_loop.simps)
next
  assume h: "k \<le> max_retries \<and> (\<forall>a<k. is_transport_failure (out_b a)) \<and> out_b k = HTTPError code detail"
  then obtain le where "generate_text loads out_b =
     (case http_loop out_b (Suc (max_retries - k)) k [] le of
        (Inl e, attempts) \<Rightarrow> (Inl e, attempts)
      | (Inr raw, attempts) \<Rightarrow> (read_generation_body loads raw, attempts))"
    using generate_text_after_failures [of k out_b loads] by blast
  with h show "generate_text loads out_b = (Inl (ProviderError code detail), k + 1)"
    by simp
next
  assume h: "j \<le> max_retries \<and> (\<forall>a<j. is_transport_failure (out_c a)) \<and> out_c j = HttpOk body"
  then obtain le where "generate_text loads out_c =
     (case http_loop out_c (Suc (max_retries - j)) j [] le of
        (Inl e, attempts) \<Rightarrow> (Inl e, attempts)
      | (Inr raw, attempts) \<Rightarrow> (read_generation_body loads raw, attempts))"
    using generate_text_after_failures [of j out_c loads] by blast
  with h show "generate_text loads out_c = (read_generation_body loads body, j + 1)"
    by simp
qed


text \<open>
  C8: a connection error is not always retried. When the server closes the connection while
  the reply is awaited, the attempt raises \<open>RemoteDisconnected\<close>, a class no handler of the
  loop names: the call makes one attempt and raises that exception as it is, although the
  second attempt would have brought the response. The same failure reported as a
  \<open>URLError\<close> is retried, and the call returns the text of the second attempt.
\<close>

theorem C8_connection_closed_not_retried:
  "generate_text (scripted_loads [PStr ''hello''])
      (\<lambda>attempt. if attempt = 0 then OtherException ''RemoteDisconnected''
                  else HttpOk (dumps (wrap_body (dumps (PStr ''hello'')))))
     = (Inl (Unhandled ''RemoteDisconnected''), 1)
   \<and> generate_text (scripted_loads [PStr ''hello''])
      (\<lambda>attempt. if attempt = 0 then URLError ''Connection reset by peer''
                  else HttpOk (dumps (wrap_body (dumps (PStr ''hello'')))))
     = (Inr (dumps (PStr ''hello'')), 2)"
  by code_simp

section \<open>Properties of the agent loop\<close>

lemma tool_loop_limit:
  "12 \<le> i \<Longrightarrow> tool_loop env up access i h
     = (Inr \<lparr>resp_provider = ''gemini'', resp_text = STEP_LIMIT_MESSAGE\<rparr>, [])"
  by (subst tool_loop.simps) simp

lemma tool_loop_unfold:
  assumes "i < 12"
  shows "tool_loop env up access i h =
     (let prompt = build_tool_prompt up access h (env_clock env i) in
      case decode_iteration env up access i h of
        Raises e \<Rightarrow> (Inl e, [Generate prompt])
      | Final message \<Rightarrow> (AgentResponse_new ''gemini'' message, [Generate prompt])
      | ToolCall model_text tool arguments \<Rightarrow>
          (case execute_tool_inner (env_tools env i) access tool arguments of
             Inl e \<Rightarrow> (Inl e, [Generate prompt, Dispatch tool arguments])
           | Inr tool_result \<Rightarrow>
               (case tool_loop env up access (Suc i) (h @ [(model_text, tool_result)]) of
                  (result, calls) \<Rightarrow> (result, Generate prompt # Dispatch tool arguments # calls))))"
  using assms
  by (subst tool_loop.simps)
     (simp add: decode_iteration_def Let_def split: sum.splits prod.splits)

lemma tool_loop_raises:
  "i < 12 \<Longrightarrow> decode_iteration env up access i h = Raises e \<Longrightarrow>
   tool_loop env up access i h = (Inl e, [Generate (build_tool_prompt up access h (env_clock env i))])"
  by (simp add: tool_loop_unfold Let_def)

lemma tool_loop_final:
  "i < 12 \<Longrightarrow> decode_iteration env up access i h = Final message \<Longrightarrow>
   tool_loop env up access i h
     = (AgentResponse_new ''gemini'' message,
        [Generate (build_tool_prompt up access h (env_clock env i))])"
  by (simp add: tool_loop_unfold Let_def)

lemma tool_loop_tool_error:
  "i < 12 \<Longrightarrow> decode_iteration env up access i h = ToolCall t tool arguments \<Longrightarrow>
   execute_tool_inner (env_tools env i) access tool arguments = Inl e \<Longrightarrow>
   tool_loop env up access i h
     = (Inl e, [Generate (build_tool_prompt up access h (env_clock env i)), Dispatch tool arguments])"
  by (simp add: tool_loop_unfold Let_def)

lemma tool_loop_tool_ok:
  "i < 12 \<Longrightarrow> decode_iteration env up access i h = ToolCall t tool arguments \<Longrightarrow>
   execute_tool_inner (env_tools env i) access tool arguments = Inr r \<Longrightarrow>
   tool_loop env up access i h
     = (fst (tool_loop env up access (Suc i) (h @ [(t, r)])),
        Generate (build_tool_prompt up access h (env_clock env i)) # Dispatch tool arguments
          # snd (tool_loop env up access (Suc i) (h @ [(t, r)])))"
  by (simp add: tool_loop_unfold Let_def split: prod.splits)

lemma tool_steps_prefix:
  assumes "tool_steps env up access i h steps" and "i + length steps \<le> 12"
  shows "fst (tool_loop env up access i h)
           = fst (tool_loop env up access (i + length steps) (h @ steps))
       \<and> map tp_history (prompts_of (snd (tool_loop env up access i h)))
           = map (\<lambda>j. h @ take j steps) [0..<length steps]
             @ map tp_history (prompts_of (snd (tool_loop env up access (i + length steps) (h @ steps))))
       \<and> length (dispatches_of (snd (tool_loop env up access i h)))
           = length steps
             + length (dispatches_of (snd (tool_loop env up access (i + length steps) (h @ steps))))
       \<and> (\<exists>pre. snd (tool_loop env up access i h)
             = pre @ snd (tool_loop env up access (i + length steps) (h @ steps)))"
  using assms
proof (induction steps arbitrary: i h)
  case Nil
  then show ?case by simp
next
  case (Cons s steps)
  obtain t r where s: "s = (t, r)" by (cases s)
  from Cons.prems(1) obtain tool arguments where
    d: "decode_iteration env up access i h = ToolCall t tool arguments"
    and x: "execute_tool_inner (env_tools env i) access tool arguments = Inr r"
    and rest: "tool_steps env up access (Suc i) (h @ [(t, r)]) steps"
    by (auto simp: s split: iteration.splits)
  have i: "i < 12" and n: "Suc i + length steps \<le> 12"
    using Cons.prems(2) by simp_all
  note ih = Cons.IH [OF rest n]
  note u = tool_loop_tool_ok [OF i d x]
  have m: "map (\<lambda>j. h @ take j ((t, r) # steps)) [0..<length ((t, r) # steps)]
        = h # map (\<lambda>j. (h @ [(t, r)]) @ take j steps) [0..<length steps]"
    by (simp add: upt_conv_Cons map_Suc_upt [symmetric] del: upt_Suc)
  from ih obtain pre where pre: "snd (tool_loop env up access (Suc i) (h @ [(t, r)]))
      = pre @ snd (tool_loop env up access (Suc i + length steps) ((h @ [(t, r)]) @ steps))"
    by blast
  have ex: "\<exists>pre. snd (tool_loop env up access i h)
             = pre @ snd (tool_loop env up access (i + length ((t, r) # steps)) (h @ (t, r) # steps))"
  proof
    show "snd (tool_loop env up access i h)
        = (Generate (build_tool_prompt up access h (env_clock env i)) # Dispatch tool arguments # pre)
          @ snd (tool_loop env up access (i + length ((t, r) # steps)) (h @ (t, r) # steps))"
      using pre by (simp add: u)
  qed
  show ?case
    unfolding s m using ih ex by (simp add: u build_tool_prompt_def)
qed

lemma respond_loop:
  assumes "req_mode request \<noteq> ''plan''"
    and "extract_repo_access (req_prompt request) = Inr (Some access)"
    and "ensure_repo_write_access (env_repo_response env access) = Inr ()"
  shows "respond env request
     = (fst (tool_loop env (req_prompt request) access 0 []),
        AccessCheck access # snd (tool_loop env (req_prompt request) access 0 []))"
  using assms by (simp add: respond_def split: prod.splits)

text \<open>
  C2, as stated, fails: a sequence of responses that never decodes to a final action does
  not always run 12 iterations. Here every response decodes to a tool call (never to a final
  action), for a tool outside the fixed set; the first dispatch raises and the workflow ends
  with that exception after one iteration.
\<close>

theorem C2_never_final_counterexample:
  "decode_iteration (scripted_env [delete_repo_action]) (req_prompt example_request)
       example_access 0 []
     = ToolCall (dumps delete_repo_action) (PStr ''delete_repo'') (PDict [])
   \<and> fst (respond (scripted_env [delete_repo_action]) example_request)
     = Inl (UnknownTool (PStr ''delete_repo''))
   \<and> length (prompts_of (snd (respond (scripted_env [delete_repo_action]) example_request))) = 1"
  by code_simp

text \<open>
  C2 (amended): in the tool workflow, when each of the 12 iterations decodes to a tool call
  whose dispatch succeeds, the loop runs exactly 12 iterations (12 generation calls, 12
  dispatches, no 13th) and the provider returns the fixed step-limit message as a normal
  response.
\<close>

theorem C2_step_limit_after_tool_calls:
  assumes "req_mode request \<noteq> ''plan''"
    and "extract_repo_access (req_prompt request) = Inr (Some access)"
    and "ensure_repo_write_access (env_repo_response env access) = Inr ()"
    and "tool_steps env (req_prompt request) access 0 [] steps"
    and "length steps = 12"
  shows "fst (respond env request)
           = Inr \<lparr>resp_provider = ''gemini'', resp_text = STEP_LIMIT_MESSAGE\<rparr>
         \<and> length (prompts_of (snd (respond env request))) = 12
         \<and> length (dispatches_of (snd (respond env request))) = 12"
proof -
  have le: "0 + length steps \<le> 12" using assms(5) by simp
  note p = tool_steps_prefix [OF assms(4) le]
  have lim: "tool_loop env (req_prompt request) access (0 + length steps) ([] @ steps)
        = (Inr \<lparr>resp_provider = ''gemini'', resp_text = STEP_LIMIT_MESSAGE\<rparr>, [])"
    by (rule tool_loop_limit) (simp add: assms(5))
  have "length (map tp_history (prompts_of (snd (tool_loop env (req_prompt request) access 0 []))))
        = 12"
    using p unfolding lim by (simp add: assms(5))
  then have "length (prompts_of (snd (tool_loop env (req_prompt request) access 0 []))) = 12"
    by simp
  then show ?thesis
    using p unfolding lim respond_loop [OF assms(1,2,3)] by (simp add: assms(5))
qed

theorem C2_step_limit_after_tool_calls_witness:
  "req_mode example_request \<noteq> ''plan''
   \<and> extract_repo_access (req_prompt example_request) = Inr (Some example_access)
   \<and> ensure_repo_write_access
        (env_repo_response (scripted_env [list_files_action]) example_access) = Inr ()
   \<and> tool_steps (scripted_env [list_files_action]) (req_prompt example_request) example_access 0 []
        (replicate 12 (list_files_text, list_files_result))
   \<and> length (replicate 12 (list_files_text, list_files_result)) = 12
   \<and> fst (respond (scripted_env [list_files_action]) example_request)
        = Inr \<lparr>resp_provider = ''gemini'', resp_text = STEP_LIMIT_MESSAGE\<rparr>
   \<and> length (prompts_of (snd (respond (scripted_env [list_files_action]) example_request))) = 12
   \<and> length (dispatches_of (snd (respond (scripted_env [list_files_action]) example_request))) = 12"
proof -
  have a: "req_mode example_request \<noteq> ''plan''" by code_simp
  have b: "extract_repo_access (req_prompt example_request) = Inr (Some example_access)"
    by code_simp
  have c: "ensure_repo_write_access
        (env_repo_response (scripted_env [list_files_action]) example_access) = Inr ()"
    by code_simp
  have d: "tool_steps (scripted_env [list_files_action]) (req_prompt example_request)
        example_access 0 [] (replicate 12 (list_files_text, list_files_result))"
    by code_simp
  have e: "length (replicate 12 (list_files_text, list_files_result)) = 12" by simp
  show ?thesis
    using a b c d e C2_step_limit_after_tool_calls [OF a b c d e] by simp
qed

text \<open>
  C5: when the first \<open>N\<close> iterations decode to tool calls that are executed (\<open>steps\<close> lists
  their model texts and tool results, in order) and the next iteration decodes to a final
  action, the histories handed to prompt building are, iteration by iteration, the first
  \<open>0, 1, \<dots>, N\<close> entries of \<open>steps\<close>: one entry is appended per executed tool call, in
  call order, and the last prompt, the one answered by the final action, carries exactly the
  \<open>N\<close> entries. The final action appends nothing: no prompt is built after it.
\<close>

theorem C5_history_in_call_order:
  assumes "tool_steps env user_prompt access 0 [] steps"
    and "length steps < 12"
    and "decode_iteration env user_prompt access (length steps) steps = Final message"
  shows "fst (tool_loop env user_prompt access 0 []) = AgentResponse_new ''gemini'' message
         \<and> map tp_history (prompts_of (snd (tool_loop env user_prompt access 0 [])))
             = map (\<lambda>j. take j steps) [0..<Suc (length steps)]
         \<and> tp_history (last (prompts_of (snd (tool_loop env user_prompt access 0 [])))) = steps
         \<and> length (dispatches_of (snd (tool_loop env user_prompt access 0 []))) = length steps"
proof -
  have le: "0 + length steps \<le> 12" using assms(2) by simp
  note p = tool_steps_prefix [OF assms(1) le]
  have fin: "tool_loop env user_prompt access (0 + length steps) ([] @ steps)
        = (AgentResponse_new ''gemini'' message,
           [Generate (build_tool_prompt user_prompt access steps (env_clock env (length steps)))])"
    using tool_loop_final [OF assms(2,3)] by simp
  have hs: "map tp_history (prompts_of (snd (tool_loop env user_prompt access 0 [])))
             = map (\<lambda>j. take j steps) [0..<Suc (length steps)]"
    using p unfolding fin by (simp add: build_tool_prompt_def)
  have ne: "prompts_of (snd (tool_loop env user_prompt access 0 [])) \<noteq> []"
    using hs by auto
  have "tp_history (last (prompts_of (snd (tool_loop env user_prompt access 0 []))))
        = last (map tp_history (prompts_of (snd (tool_loop env user_prompt access 0 []))))"
    using ne by (simp add: last_map)
  also have "\<dots> = steps" unfolding hs by simp
  finally have l: "tp_history (last (prompts_of (snd (tool_loop env user_prompt access 0 [])))) = steps" .
  show ?thesis using p hs l unfolding fin by simp
qed

theorem C5_history_in_call_order_witness:
  "tool_steps (scripted_env [list_files_action, final_action]) ''go'' example_access 0 []
        [(list_files_text, list_files_result)]
   \<and> length [(list_files_text, list_files_result)] < 12
   \<and> decode_iteration (scripted_env [list_files_action, final_action]) ''go'' example_access
        (length [(list_files_text, list_files_result)]) [(list_files_text, list_files_result)]
        = Final (PStr ''Created PR #4'')
   \<and> fst (tool_loop (scripted_env [list_files_action, final_action]) ''go'' example_access 0 [])
        = Inr \<lparr>resp_provider = ''gemini'', resp_text = ''Created PR #4''\<rparr>
   \<and> map tp_history (prompts_of (snd
          (tool_loop (scripted_env [list_files_action, final_action]) ''go'' example_access 0 [])))
        = [[], [(list_files_text, list_files_result)]]"
proof -
  have a: "tool_steps (scripted_env [list_files_action, final_action]) ''go'' example_access 0 []
        [(list_files_text, list_files_result)]"
    by code_simp
  have b: "length [(list_files_text, list_files_result)] < 12" by simp
  have c: "decode_iteration (scripted_env [list_files_action, final_action]) ''go'' example_access
        (length [(list_files_text, list_files_result)]) [(list_files_text, list_files_result)]
        = Final (PStr ''Created PR #4'')"
    by code_simp
  show ?thesis
    using a b c C5_history_in_call_order [OF a b c] by (simp add: AgentResponse_new_def)
qed

lemma unknown_tool:
  "\<not> list_ex (\<lambda>name. tool = PStr name) KNOWN_TOOLS \<Longrightarrow>
   execute_tool_inner tls access tool arguments = Inl (UnknownTool tool)"
  by (simp add: execute_tool_inner_def KNOWN_TOOLS_def)

text \<open>
  C6: a tool name outside the fixed set makes dispatch fail with the unknown-tool error,
  whatever the arguments. In the loop, after any number of executed tool calls, an iteration
  that decodes to a tool call with such a name ends the workflow with that error: the failed
  dispatch is the last call made, and no further generation call or dispatch follows.
\<close>

theorem C6_unknown_tool_aborts:
  assumes "\<not> list_ex (\<lambda>name. tool = PStr name) KNOWN_TOOLS"
  shows "execute_tool_inner tls access tool arguments = Inl (UnknownTool tool)
       \<and> (tool_steps env user_prompt access 0 [] steps \<and> length steps < 12
          \<and> decode_iteration env user_prompt access (length steps) steps
              = ToolCall model_text tool arguments
          \<longrightarrow> fst (tool_loop env user_prompt access 0 []) = Inl (UnknownTool tool)
              \<and> length (prompts_of (snd (tool_loop env user_prompt access 0 []))) = Suc (length steps)
              \<and> length (dispatches_of (snd (tool_loop env user_prompt access 0 []))) = Suc (length steps)
              \<and> last (snd (tool_loop env user_prompt access 0 [])) = Dispatch tool arguments)"
proof (intro conjI impI)
  show "execute_tool_inner tls access tool arguments = Inl (UnknownTool tool)"
    using assms by (rule unknown_tool)
next
  assume h: "tool_steps env user_prompt access 0 [] steps \<and> length steps < 12
          \<and> decode_iteration env user_prompt access (length steps) steps
              = ToolCall model_text tool arguments"
  then have le: "0 + length steps \<le> 12" by simp
  from h have ts: "tool_steps env user_prompt access 0 [] steps" by simp
  note p = tool_steps_prefix [OF ts le]
  have x: "execute_tool_inner (env_tools env (length steps)) access tool arguments
           = Inl (UnknownTool tool)"
    using assms by (rule unknown_tool)
  have e: "tool_loop env user_prompt access (0 + length steps) ([] @ steps)
        = (Inl (UnknownTool tool),
           [Generate (build_tool_prompt user_prompt access steps (env_clock env (length steps))),
            Dispatch tool arguments])"
    using tool_loop_tool_error [OF _ _ x] h by simp
  show "fst (tool_loop env user_prompt access 0 []) = Inl (UnknownTool tool)"
    using p unfolding e by simp
  have "length (map tp_history (prompts_of (snd (tool_loop env user_prompt access 0 []))))
        = Suc (length steps)"
    using p unfolding e by simp
  then show "length (prompts_of (snd (tool_loop env user_prompt access 0 []))) = Suc (length steps)"
    by simp
  show "length (dispatches_of (snd (tool_loop env user_prompt access 0 []))) = Suc (length steps)"
    using p unfolding e by simp
  from p obtain pre where "snd (tool_loop env user_prompt access 0 [])
      = pre @ snd (tool_loop env user_prompt access (0 + length steps) ([] @ steps))"
    by blast
  then show "last (snd (tool_loop env user_prompt access 0 [])) = Dispatch tool arguments"
    unfolding e by simp
qed

theorem C6_unknown_tool_aborts_witness:
  "\<not> list_ex (\<lambda>name. PStr ''delete_repo'' = PStr name) KNOWN_TOOLS
   \<and> tool_steps (scripted_env [list_files_action, delete_repo_action]) ''go'' example_access 0 []
        [(list_files_text, list_files_result)]
   \<and> length [(list_files_text, list_files_result)] < 12
   \<and> decode_iteration (scripted_env [list_files_action, delete_repo_action]) ''go'' example_access
        (length [(list_files_text, list_files_result)]) [(list_files_text, list_files_result)]
        = ToolCall (dumps delete_repo_action) (PStr ''delete_repo'') (PDict [])
   \<and> fst (tool_loop (scripted_env [list_files_action, delete_repo_action]) ''go'' example_access 0 [])
        = Inl (UnknownTool (PStr ''delete_repo''))
   \<and> length (prompts_of (snd
        (tool_loop (scripted_env [list_files_action, delete_repo_action]) ''go'' example_access 0 [])))
        = 2"
proof -
  have a: "\<not> list_ex (\<lambda>name. PStr ''delete_repo'' = PStr name) KNOWN_TOOLS"
    by code_simp
  have b: "tool_steps (scripted_env [list_files_action, delete_repo_action]) ''go'' example_access
        0 [] [(list_files_text, list_files_result)]"
    by code_simp
  have c: "length [(list_files_text, list_files_result)] < 12" by simp
  have d: "decode_iteration (scripted_env [list_files_action, delete_repo_action]) ''go''
        example_access (length [(list_files_text, list_files_result)])
        [(list_files_text, list_files_result)]
        = ToolCall (dumps delete_repo_action) (PStr ''delete_repo'') (PDict [])"
    by code_simp
  from C6_unknown_tool_aborts [OF a, of example_tools example_access "PDict []"
      "scripted_env [list_files_action, delete_repo_action]" "''go''"
      "[(list_files_text, list_files_result)]" "dumps delete_repo_action"] b c d
  show ?thesis using a by simp
qed

section \<open>Properties of the access check and of mode detection\<close>

text \<open>
  C9: on a repository response that is a mapping, the access check raises exactly when the
  response holds a \<open>permissions\<close> mapping whose \<open>push\<close> entry is absent or false (in
  Python's sense of truth), and then with the no-push-access error. A response without a
  \<open>permissions\<close> key, or whose \<open>permissions\<close> value is not a mapping, passes the check, and
  the provider goes on to the tool loop.
\<close>

theorem C9_access_check:
  "(ensure_repo_write_access (Inr (PDict r)) = Inl e \<longleftrightarrow>
      e = NoPushAccess \<and>
      (\<exists>perms. map_of r ''permissions'' = Some (PDict perms) \<and>
         (map_of perms ''push'' = None \<or> (\<exists>v. map_of perms ''push'' = Some v \<and> \<not> truthy v))))
   \<and> ((map_of r ''permissions'' = None \<or> (\<exists>v. map_of r ''permissions'' = Some v \<and> \<not> is_dict v)) \<longrightarrow>
        ensure_repo_write_access (Inr (PDict r)) = Inr ()
        \<and> (req_mode request \<noteq> ''plan''
           \<and> extract_repo_access (req_prompt request) = Inr (Some access)
           \<and> env_repo_response env access = Inr (PDict r) \<longrightarrow>
           respond env request
             = (fst (tool_loop env (req_prompt request) access 0 []),
                AccessCheck access # snd (tool_loop env (req_prompt request) access 0 []))))"
proof -
  have 1: "ensure_repo_write_access (Inr (PDict r)) = Inl e \<longleftrightarrow>
      e = NoPushAccess \<and>
      (\<exists>perms. map_of r ''permissions'' = Some (PDict perms) \<and>
         (map_of perms ''push'' = None \<or> (\<exists>v. map_of perms ''push'' = Some v \<and> \<not> truthy v)))"
    by (auto simp: ensure_repo_write_access_def py_get_def split: option.splits pyval.splits)
  have 2: "ensure_repo_write_access (Inr (PDict r)) = Inr ()"
    if "map_of r ''permissions'' = None \<or> (\<exists>v. map_of r ''permissions'' = Some v \<and> \<not> is_dict v)"
    using that
    by (auto simp: ensure_repo_write_access_def py_get_def split: option.splits pyval.splits)
  have 3: "respond env request
             = (fst (tool_loop env (req_prompt request) access 0 []),
                AccessCheck access # snd (tool_loop env (req_prompt request) access 0 []))"
    if "map_of r ''permissions'' = None \<or> (\<exists>v. map_of r ''permissions'' = Some v \<and> \<not> is_dict v)"
      and "req_mode request \<noteq> ''plan''"
      and "extract_repo_access (req_prompt request) = Inr (Some access)"
      and "env_repo_response env access = Inr (PDict r)"
    using respond_loop [OF that(2,3)] 2 [OF that(1)] that(4) by simp
  from 1 2 3 show ?thesis by blast
qed

theorem C9_access_check_witness:
  "map_of [(''name'', PStr ''widgets'')] ''permissions'' = None
   \<and> ensure_repo_write_access (Inr (PDict [(''name'', PStr ''widgets'')])) = Inr ()
   \<and> extract_repo_access (req_prompt example_request) = Inr (Some example_access)
   \<and> env_repo_response no_permissions_env example_access = Inr (PDict [(''name'', PStr ''widgets'')])
   \<and> respond no_permissions_env example_request
       = (fst (tool_loop no_permissions_env (req_prompt example_request) example_access 0 []),
          AccessCheck example_access
            # snd (tool_loop no_permissions_env (req_prompt example_request) example_access 0 []))"
proof -
  have a0: "map_of [(''name'', PStr ''widgets'')] ''permissions'' = None"
    by simp
  then have a: "map_of [(''name'', PStr ''widgets'')] ''permissions'' = None
      \<or> (\<exists>v. map_of [(''name'', PStr ''widgets'')] ''permissions'' = Some v \<and> \<not> is_dict v)"
    by (rule disjI1)
  have b: "req_mode example_request \<noteq> ''plan''" by code_simp
  have c: "extract_repo_access (req_prompt example_request) = Inr (Some example_access)"
    by code_simp
  have d: "env_repo_response no_permissions_env example_access
           = Inr (PDict [(''name'', PStr ''widgets'')])"
    by (simp add: no_permissions_env_def)
  note t = C9_access_check [of "[(''name'', PStr ''widgets'')]" NoPushAccess example_request
      example_access no_permissions_env, THEN conjunct2, rule_format, OF a]
  note e = t [THEN conjunct1]
  have bcd: "req_mode example_request \<noteq> ''plan''
           \<and> extract_repo_access (req_prompt example_request) = Inr (Some example_access)
           \<and> env_repo_response no_permissions_env example_access
               = Inr (PDict [(''name'', PStr ''widgets'')])"
    using b c d by (intro conjI)
  note r = t [THEN conjunct2, rule_format, OF bcd]
  show ?thesis
    by (intro conjI) (rule a0, rule e, rule c, rule d, rule r)
qed

lemma startswith_iff: "startswith p s \<longleftrightarrow> (\<exists>post. s = p @ post)"
proof
  assume "startswith p s"
  then have "s = p @ drop (length p) s"
    unfolding startswith_def by (metis append_take_drop_id)
  then show "\<exists>post. s = p @ post" ..
next
  assume "\<exists>post. s = p @ post"
  then show "startswith p s" by (auto simp: startswith_def)
qed

lemma contains_iff: "contains sub s \<longleftrightarrow> (\<exists>pre post. s = pre @ sub @ post)"
proof (induction s)
  case Nil
  then show ?case by auto
next
  case (Cons c cs)
  show ?case
  proof
    assume "contains sub (c # cs)"
    then consider "startswith sub (c # cs)" | "contains sub cs" by auto
    then show "\<exists>pre post. c # cs = pre @ sub @ post"
    proof cases
      case 1
      then obtain post where "c # cs = sub @ post" by (auto simp: startswith_iff)
      then have "c # cs = [] @ sub @ post" by simp
      then show ?thesis by blast
    next
      case 2
      then obtain pre post where "cs = pre @ sub @ post" using Cons.IH by blast
      then have "c # cs = (c # pre) @ sub @ post" by simp
      then show ?thesis by blast
    qed
  next
    assume "\<exists>pre post. c # cs = pre @ sub @ post"
    then obtain pre post where e: "c # cs = pre @ sub @ post" by blast
    show "contains sub (c # cs)"
    proof (cases pre)
      case Nil
      with e have "startswith sub (c # cs)" by (auto simp: startswith_iff)
      then show ?thesis by simp
    next
      case (Cons x pre')
      with e have "cs = pre' @ sub @ post" by simp
      then have "contains sub cs" using Cons.IH by blast
      then show ?thesis by simp
    qed
  qed
qed

lemma contains_skip_left:
  assumes "sub \<noteq> []" and "\<not> P (hd sub)" and "list_all P ws" and "contains sub (ws @ t)"
  shows "contains sub t"
  using assms(3,4)
proof (induction ws)
  case Nil
  then show ?case by simp
next
  case (Cons w ws)
  have "\<not> startswith sub ((w # ws) @ t)"
  proof
    assume "startswith sub ((w # ws) @ t)"
    then obtain post where "(w # ws) @ t = sub @ post" by (auto simp: startswith_iff)
    with assms(1) have "hd sub = w" by (cases sub) auto
    with assms(2) Cons.prems(1) show False by simp
  qed
  with Cons.prems(2) have "contains sub (ws @ t)" by simp
  with Cons.IH Cons.prems(1) show ?case by simp
qed

lemma contains_skip_right:
  assumes "sub \<noteq> []" and "\<not> P (last sub)" and "list_all P ws" and "contains sub (t @ ws)"
  shows "contains sub t"
  using assms(3,4)
proof (induction ws rule: rev_induct)
  case Nil
  then show ?case by simp
next
  case (snoc w ws)
  from snoc.prems(2) obtain pre post where e: "t @ ws @ [w] = pre @ sub @ post"
    by (auto simp: contains_iff)
  have "post \<noteq> []"
  proof
    assume "post = []"
    with e have "last (t @ ws @ [w]) = last (pre @ sub)" by simp
    with assms(1) have "w = last sub" by simp
    with assms(2) snoc.prems(1) show False by simp
  qed
  then obtain post' x where p: "post = post' @ [x]" by (metis rev_exhaust)
  with e have "(t @ ws) @ [w] = (pre @ sub @ post') @ [x]" by simp
  then have "t @ ws = pre @ sub @ post'" by (simp only: append1_eq_conv)
  then have "contains sub (t @ ws)" by (auto simp: contains_iff)
  with snoc.IH snoc.prems(1) show ?case by simp
qed

lemma lower_char_space: "py_isspace c \<Longrightarrow> lower_char c = c"
  by (auto simp: py_isspace_def lower_char_def Let_def)

lemma strip_decomp:
  "\<exists>a b. s = a @ strip s @ b \<and> list_all py_isspace a \<and> list_all py_isspace b"
proof -
  let ?t = "dropWhile py_isspace s"
  have 1: "s = takeWhile py_isspace s @ ?t" by simp
  have "strip s @ rev (takeWhile py_isspace (rev ?t))
        = rev (takeWhile py_isspace (rev ?t) @ dropWhile py_isspace (rev ?t))"
    by (simp add: strip_def lstrip_def rstrip_def del: takeWhile_dropWhile_id)
  also have "\<dots> = rev (rev ?t)"
    by (simp only: takeWhile_dropWhile_id)
  finally have 2: "?t = strip s @ rev (takeWhile py_isspace (rev ?t))"
    by simp
  have a: "list_all py_isspace (takeWhile py_isspace s)"
    by (simp add: list_all_iff) (meson set_takeWhileD)
  have b: "list_all py_isspace (rev (takeWhile py_isspace (rev ?t)))"
    by (simp add: list_all_iff) (meson set_takeWhileD)
  from 1 2 have "s = takeWhile py_isspace s @ strip s @ rev (takeWhile py_isspace (rev ?t))"
    by metis
  with a b show ?thesis by blast
qed

lemma lower_spaces: "list_all py_isspace a \<Longrightarrow> lower a = a"
  by (induction a) (simp_all add: lower_def lower_char_space)

lemma contains_lower_strip:
  assumes "sub \<noteq> []" and "\<not> py_isspace (hd sub)" and "\<not> py_isspace (last sub)"
    and "contains sub (lower s)"
  shows "contains sub (lower (strip s))"
proof -
  obtain a b where d: "s = a @ strip s @ b" "list_all py_isspace a" "list_all py_isspace b"
    using strip_decomp by blast
  have "lower s = lower a @ lower (strip s) @ lower b"
    by (subst d(1)) (simp add: lower_def)
  then have "lower s = a @ lower (strip s) @ b"
    using d(2,3) by (simp add: lower_spaces)
  with assms(4) have "contains sub (a @ lower (strip s) @ b)" by simp
  then have "contains sub (lower (strip s) @ b)"
    using contains_skip_left [OF assms(1,2) d(2)] by blast
  then show ?thesis
    using contains_skip_right [OF assms(1,3) d(3)] by blast
qed

lemma code_hints_shape:
  "list_all (\<lambda>h. h \<noteq> [] \<and> \<not> py_isspace (hd h) \<and> \<not> py_isspace (last h)) CODE_HINTS"
  by code_simp

lemma detect_mode_code_hint:
  assumes "list_ex (\<lambda>hint. contains hint (lower prompt)) CODE_HINTS"
  shows "md_mode (detect_mode prompt) = ''plan''"
proof -
  from assms obtain h where h: "h \<in> set CODE_HINTS" "contains h (lower prompt)"
    by (auto simp: list_ex_iff)
  from code_hints_shape h(1) have "h \<noteq> []" "\<not> py_isspace (hd h)" "\<not> py_isspace (last h)"
    by (auto simp: list_all_iff)
  then have "contains h (lower (strip prompt))"
    using h(2) by (rule contains_lower_strip)
  with h(1) have "find (\<lambda>hint. contains hint (lower (strip prompt))) CODE_HINTS \<noteq> None"
    by (auto simp: find_None_iff)
  then show ?thesis
    by (auto simp: detect_mode_def Let_def split: option.splits)
qed

lemma respond_plan:
  "req_mode request = ''plan'' \<Longrightarrow>
   respond env request =
     (case fst (generate_text (env_json_loads env)
                 (env_urlopen env 0 (TextPrompt (build_plan_prompt (env_plan_schema env) (req_prompt request))))) of
        Inl e \<Rightarrow> Inl e
      | Inr text \<Rightarrow> Inr \<lparr>resp_provider = ''gemini'', resp_text = text\<rparr>,
      [Generate (TextPrompt (build_plan_prompt (env_plan_schema env) (req_prompt request)))])"
  by (simp add: respond_def Let_def split: sum.splits)

text \<open>
  C10: a prompt whose lower-cased text contains a code hint is given mode \<open>plan\<close> by
  \<open>detect_mode\<close>, never \<open>chat\<close>. A request built with that mode takes the plan branch of
  \<open>respond\<close>: one generation call with the plan prompt, whose text is the response. Whatever
  repository the prompt names, no access check and no tool dispatch is made.
\<close>

theorem C10_code_hint_routes_to_plan:
  assumes "list_ex (\<lambda>hint. contains hint (lower prompt)) CODE_HINTS"
  shows "md_mode (detect_mode prompt) = ''plan''
     \<and> md_mode (detect_mode prompt) \<noteq> ''chat''
     \<and> respond env \<lparr>req_prompt = prompt, req_mode = md_mode (detect_mode prompt), req_context = ctx\<rparr>
       = (case fst (generate_text (env_json_loads env)
                     (env_urlopen env 0 (TextPrompt (build_plan_prompt (env_plan_schema env) prompt)))) of
            Inl e \<Rightarrow> Inl e
          | Inr text \<Rightarrow> Inr \<lparr>resp_provider = ''gemini'', resp_text = text\<rparr>,
          [Generate (TextPrompt (build_plan_prompt (env_plan_schema env) prompt))])"
proof -
  have m: "md_mode (detect_mode prompt) = ''plan''"
    using assms by (rule detect_mode_code_hint)
  have "req_mode \<lparr>req_prompt = prompt, req_mode = md_mode (detect_mode prompt), req_context = ctx\<rparr>
        = ''plan''"
    using m by simp
  from respond_plan [OF this, of env] m show ?thesis by simp
qed

theorem C10_code_hint_routes_to_plan_witness:
  "list_ex (\<lambda>hint. contains hint (lower ''fix bug in https://github.com/acme/widgets'')) CODE_HINTS
   \<and> md_mode (detect_mode ''fix bug in https://github.com/acme/widgets'') = ''plan''
   \<and> snd (respond (scripted_env [final_action])
        \<lparr>req_prompt = ''fix bug in https://github.com/acme/widgets'',
         req_mode = md_mode (detect_mode ''fix bug in https://github.com/acme/widgets''),
         req_context = []\<rparr>)
     = [Generate (TextPrompt (build_plan_prompt (env_plan_schema (scripted_env [final_action]))
          ''fix bug in https://github.com/acme/widgets''))]"
proof -
  have a: "list_ex (\<lambda>hint. contains hint (lower ''fix bug in https://github.com/acme/widgets''))
             CODE_HINTS"
    by code_simp
  from C10_code_hint_routes_to_plan [OF a, of "scripted_env [final_action]" "[]"]
  have m: "md_mode (detect_mode ''fix bug in https://github.com/acme/widgets'') = ''plan''"
    and r: "respond (scripted_env [final_action])
        \<lparr>req_prompt = ''fix bug in https://github.com/acme/widgets'',
         req_mode = md_mode (detect_mode ''fix bug in https://github.com/acme/widgets''),
         req_context = []\<rparr>
       = (case fst (generate_text (env_json_loads (scripted_env [final_action]))
                     (env_urlopen (scripted_env [final_action]) 0
                       (TextPrompt (build_plan_prompt (env_plan_schema (scripted_env [final_action]))
                          ''fix bug in https://github.com/acme/widgets'')))) of
            Inl e \<Rightarrow> Inl e
          | Inr text \<Rightarrow> Inr \<lparr>resp_provider = ''gemini'', resp_text = text\<rparr>,
          [Generate (TextPrompt (build_plan_prompt (env_plan_schema (scripted_env [final_action]))
             ''fix bug in https://github.com/acme/widgets''))])"
    by blast+
  show ?thesis
    by (intro conjI) (rule a, rule m, simp only: r snd_conv)
qed

end
